theory Spec2Isabelle
  imports Main "HOL-Library.AList"
begin

section \<open>The host document: a model of the DOM objects the component manager touches\<close>

text \<open>
  The component manager of \<^verbatim>\<open>src/src/env.d.ts\<close> works on browser objects. The
  document is modelled as a forest of element trees. Every element object has an
  identity (\<open>node_id\<close>), so that a stored \<^verbatim>\<open>component.element\<close> reference is the
  identity of a node; the top-level trees of the forest are the nodes without a parent
  (the page itself and every detached subtree that is still referenced).

  An element carries what the manager reads and writes: its tag (\<open>localName\<close>, the
  lower-case form of \<^verbatim>\<open>tagName\<close>), its class list, the \<^verbatim>\<open>data-component-id\<close>
  attribute (\<^verbatim>\<open>dataset.componentId\<close>), the \<^verbatim>\<open>src\<close> and \<^verbatim>\<open>alt\<close> attributes and its
  inline style declarations in order.
\<close>

type_synonym nid = nat

record attrs =
  node_id :: nid
  localName :: string
  classList :: "string list"
  componentId :: "string option"
  src_attr :: "string option"
  alt_attr :: "string option"
  inline_style :: "(string \<times> string) list"

datatype node = Element attrs "node list" | TextNode string

fun is_element :: "node \<Rightarrow> bool" where
  "is_element (Element a ks) = True"
| "is_element (TextNode t) = False"

fun has_id :: "nid \<Rightarrow> node \<Rightarrow> bool" where
  "has_id n (Element a ks) = (node_id a = n)"
| "has_id n (TextNode t) = False"

fun childNodes :: "node \<Rightarrow> node list" where
  "childNodes (Element a ks) = ks"
| "childNodes (TextNode t) = []"

text \<open>All elements of a tree in document order, the root first.\<close>

fun elements :: "node \<Rightarrow> (attrs \<times> node list) list" where
  "elements (TextNode t) = []"
| "elements (Element a ks) = (a, ks) # concat (map elements ks)"

definition descendants :: "node \<Rightarrow> (attrs \<times> node list) list" where
  "descendants n = concat (map elements (childNodes n))"

definition forest_elements :: "node list \<Rightarrow> (attrs \<times> node list) list" where
  "forest_elements f = concat (map elements f)"

definition node_ids :: "node list \<Rightarrow> nid list" where
  "node_ids f = map (node_id \<circ> fst) (forest_elements f)"

text \<open>Dereferencing an element identity.\<close>

definition find_node :: "nid \<Rightarrow> node list \<Rightarrow> (attrs \<times> node list) option" where
  "find_node n f = find (\<lambda>e. node_id (fst e) = n) (forest_elements f)"

text \<open>\<^verbatim>\<open>querySelectorAll\<close> and \<^verbatim>\<open>querySelector\<close> below an element, for a selector given
  as a predicate on an element and its children.\<close>

definition querySelectorAll :: "(attrs \<times> node list \<Rightarrow> bool) \<Rightarrow> attrs \<times> node list \<Rightarrow> (attrs \<times> node list) list" where
  "querySelectorAll sel e = filter sel (descendants (Element (fst e) (snd e)))"

definition querySelector :: "(attrs \<times> node list \<Rightarrow> bool) \<Rightarrow> attrs \<times> node list \<Rightarrow> (attrs \<times> node list) option" where
  "querySelector sel e = find sel (descendants (Element (fst e) (snd e)))"

text \<open>The inclusive ancestors of the element \<open>n\<close>, the element itself first
  (empty when the tree does not hold \<open>n\<close>); \<^verbatim>\<open>closest\<close> takes the first match.\<close>

fun ancestors_in :: "nid \<Rightarrow> node \<Rightarrow> (attrs \<times> node list) list" where
  "ancestors_in n (TextNode t) = []"
| "ancestors_in n (Element a ks) =
     (if node_id a = n then [(a, ks)]
      else (case concat (map (ancestors_in n) ks) of
              [] \<Rightarrow> []
            | c # cs \<Rightarrow> (c # cs) @ [(a, ks)]))"

definition closest :: "(attrs \<times> node list \<Rightarrow> bool) \<Rightarrow> nid \<Rightarrow> node list \<Rightarrow> (attrs \<times> node list) option" where
  "closest sel n f = find sel (concat (map (ancestors_in n) f))"

text \<open>Writing to the element with a given identity: its attributes, or its children.
  Identities are unique in a document, so at most one element is written.\<close>

fun update_attrs :: "nid \<Rightarrow> (attrs \<Rightarrow> attrs) \<Rightarrow> node \<Rightarrow> node" where
  "update_attrs n g (TextNode t) = TextNode t"
| "update_attrs n g (Element a ks) =
     Element (if node_id a = n then g a else a) (map (update_attrs n g) ks)"

fun update_children :: "nid \<Rightarrow> (node list \<Rightarrow> node list) \<Rightarrow> node \<Rightarrow> node" where
  "update_children n g (TextNode t) = TextNode t"
| "update_children n g (Element a ks) =
     (if node_id a = n then Element a (g ks) else Element a (map (update_children n g) ks))"

text \<open>\<^verbatim>\<open>ref.after(new)\<close>: the new node becomes the next sibling of \<open>ref\<close>. A node
  without a parent (a top-level tree of the forest) has no sibling position, and the call
  does nothing there.\<close>

fun after_in :: "nid \<Rightarrow> node \<Rightarrow> node \<Rightarrow> node" where
  "after_in r new (TextNode t) = TextNode t"
| "after_in r new (Element a ks) =
     Element a (concat (map (\<lambda>k. if has_id r k then [k, new] else [after_in r new k]) ks))"

definition has_parent :: "nid \<Rightarrow> node list \<Rightarrow> bool" where
  "has_parent n f = (\<exists>e \<in> set (forest_elements f). \<exists>k \<in> set (snd e). has_id n k)"

text \<open>\<^verbatim>\<open>el.remove()\<close>: the subtree leaves its parent's child list and lives on as a
  detached tree; a node without a parent stays where it is.\<close>

fun remove_in :: "nid \<Rightarrow> node \<Rightarrow> node" where
  "remove_in n (TextNode t) = TextNode t"
| "remove_in n (Element a ks) =
     Element a (map (remove_in n) (filter (\<lambda>k. \<not> has_id n k) ks))"

definition remove_node :: "nid \<Rightarrow> node list \<Rightarrow> node list" where
  "remove_node n f =
     (if has_parent n f
      then (case find_node n f of
              None \<Rightarrow> f
            | Some e \<Rightarrow> map (remove_in n) f @ [Element (fst e) (snd e)])
      else f)"

text \<open>\<^verbatim>\<open>parent.appendChild(new)\<close>, and \<^verbatim>\<open>range.insertNode(new)\<close> for a range that starts
  at a boundary point: before child \<open>k\<close> of an element, or inside its \<open>k\<close>-th child, a text
  node, which is split at the offset. A boundary point always lies in a live node; were
  the container missing from the forest, the new node would stay detached.\<close>

datatype boundary = InElement nid nat | InText nid nat nat

definition appendChild :: "nid \<Rightarrow> node \<Rightarrow> node list \<Rightarrow> node list" where
  "appendChild parent new f =
     (if parent \<in> set (node_ids f)
      then map (update_children parent (\<lambda>ks. ks @ [new])) f
      else f @ [new])"

fun insert_children :: "boundary \<Rightarrow> node \<Rightarrow> node list \<Rightarrow> node list" where
  "insert_children (InElement c k) new ks = take k ks @ [new] @ drop k ks"
| "insert_children (InText c k off) new ks =
     (case drop k ks of
        TextNode t # rest \<Rightarrow> take k ks @ [TextNode (take off t), new, TextNode (drop off t)] @ rest
      | _ \<Rightarrow> take k ks @ [new] @ drop k ks)"

fun container :: "boundary \<Rightarrow> nid" where
  "container (InElement c k) = c"
| "container (InText c k off) = c"

definition insertNode :: "boundary \<Rightarrow> node \<Rightarrow> node list \<Rightarrow> node list" where
  "insertNode b new f =
     (if container b \<in> set (node_ids f)
      then map (update_children (container b) (insert_children b new)) f
      else f @ [new])"

definition after :: "nid \<Rightarrow> node \<Rightarrow> node list \<Rightarrow> node list" where
  "after r new f = map (after_in r new) f"

text \<open>\<^verbatim>\<open>cloneNode(true)\<close>: a copy of the whole subtree, equal to the original in
  everything but the identities, which are new: the originals' shifted past every identity
  handed out so far.\<close>

fun cloneNode :: "nat \<Rightarrow> node \<Rightarrow> node" where
  "cloneNode k (TextNode t) = TextNode t"
| "cloneNode k (Element a ks) = Element (a\<lparr>node_id := k + node_id a\<rparr>) (map (cloneNode k) ks)"

text \<open>\<^verbatim>\<open>textContent\<close>, read and written.\<close>

fun textContent :: "node \<Rightarrow> string" where
  "textContent (TextNode t) = t"
| "textContent (Element a ks) = concat (map textContent ks)"

definition set_textContent :: "nid \<Rightarrow> string \<Rightarrow> node list \<Rightarrow> node list" where
  "set_textContent n v f =
     map (update_children n (\<lambda>ks. if v = [] then [] else [TextNode v])) f"

text \<open>The class list and the inline style of an element. Assigning the empty string to a
  style property removes its declaration; the \<^verbatim>\<open>margin\<close> shorthand with two values
  stands for its four longhands.\<close>

definition classList_remove :: "string list \<Rightarrow> string list \<Rightarrow> string list" where
  "classList_remove tokens cl = filter (\<lambda>c. c \<notin> set tokens) cl"

definition classList_add :: "string \<Rightarrow> string list \<Rightarrow> string list" where
  "classList_add c cl = (if c \<in> set cl then cl else cl @ [c])"

definition style_set :: "string \<Rightarrow> string \<Rightarrow> (string \<times> string) list \<Rightarrow> (string \<times> string) list" where
  "style_set p v st = (if v = [] then AList.delete p st else AList.update p v st)"

definition style_get :: "string \<Rightarrow> (string \<times> string) list \<Rightarrow> string" where
  "style_get p st = (case map_of st p of None \<Rightarrow> [] | Some v \<Rightarrow> v)"

definition style_set_margin :: "string \<Rightarrow> string \<Rightarrow> (string \<times> string) list \<Rightarrow> (string \<times> string) list" where
  "style_set_margin v h st =
     style_set ''margin-left'' h (style_set ''margin-bottom'' v
       (style_set ''margin-right'' h (style_set ''margin-top'' v st)))"

definition set_class :: "nid \<Rightarrow> (string list \<Rightarrow> string list) \<Rightarrow> node list \<Rightarrow> node list" where
  "set_class n g f = map (update_attrs n (\<lambda>a. a\<lparr>classList := g (classList a)\<rparr>)) f"

definition set_style :: "nid \<Rightarrow> ((string \<times> string) list \<Rightarrow> (string \<times> string) list) \<Rightarrow> node list \<Rightarrow> node list" where
  "set_style n g f = map (update_attrs n (\<lambda>a. a\<lparr>inline_style := g (inline_style a)\<rparr>)) f"

text \<open>\<^verbatim>\<open>img.src = v\<close> and \<^verbatim>\<open>img.alt = v\<close> write the attribute of an image element. On
  any other element the assignment only creates a script property, which is no part of
  the markup.\<close>

definition set_src :: "nid \<Rightarrow> string \<Rightarrow> node list \<Rightarrow> node list" where
  "set_src n v f =
     map (update_attrs n (\<lambda>a. if localName a = ''img'' then a\<lparr>src_attr := Some v\<rparr> else a)) f"

definition set_alt :: "nid \<Rightarrow> string \<Rightarrow> node list \<Rightarrow> node list" where
  "set_alt n v f =
     map (update_attrs n (\<lambda>a. if localName a = ''img'' then a\<lparr>alt_attr := Some v\<rparr> else a)) f"

text \<open>Reading \<^verbatim>\<open>img.src\<close> and \<^verbatim>\<open>img.alt\<close>: the text of the attribute, empty when
  the attribute is missing. (A browser answers \<^verbatim>\<open>img.src\<close> with the address resolved
  against the address of the page; the model keeps the attribute text, which is the same for
  an absolute address.)\<close>

definition src_of :: "attrs \<Rightarrow> string" where
  "src_of a = (case src_attr a of None \<Rightarrow> [] | Some v \<Rightarrow> v)"

definition alt_of :: "attrs \<Rightarrow> string" where
  "alt_of a = (case alt_attr a of None \<Rightarrow> [] | Some v \<Rightarrow> v)"

definition set_componentId :: "nid \<Rightarrow> string \<Rightarrow> node list \<Rightarrow> node list" where
  "set_componentId n v f = map (update_attrs n (\<lambda>a. a\<lparr>componentId := Some v\<rparr>)) f"

text \<open>\<^verbatim>\<open>!el.dataset.componentId\<close>: the attribute is missing or empty.\<close>

definition no_componentId :: "attrs \<Rightarrow> bool" where
  "no_componentId a = (componentId a = None \<or> componentId a = Some [])"

subsection \<open>Serialising markup\<close>

text \<open>\<^verbatim>\<open>innerHTML\<close>: the markup of the children of an element, after the HTML fragment
  serialisation algorithm (void elements without an end tag). The printed text is a
  simplification of what a browser prints: the attributes come in the fixed order
  \<^verbatim>\<open>src\<close>, \<^verbatim>\<open>alt\<close>, \<^verbatim>\<open>class\<close>, \<^verbatim>\<open>data-component-id\<close>, \<^verbatim>\<open>style\<close> and not in
  the order in which they were set; the class attribute is the class tokens joined by one
  space; an empty class list or style prints no attribute; and the four margin longhands are
  printed one by one where a browser prints the shorthand. The properties below relate the
  output field to this function and do not depend on the text it prints.\<close>

fun escape :: "bool \<Rightarrow> string \<Rightarrow> string" where
  "escape in_attr [] = []"
| "escape in_attr (c # cs) =
     (if c = CHR ''&'' then ''&amp;''
      else if in_attr \<and> c = CHR 0x22 then ''&quot;''
      else if c = CHR ''<'' then ''&lt;''
      else if c = CHR ''>'' then ''&gt;''
      else [c]) @ escape in_attr cs"

definition attribute :: "string \<Rightarrow> string \<Rightarrow> string" where
  "attribute name v = '' '' @ name @ ''='' @ [CHR 0x22] @ escape True v @ [CHR 0x22]"

fun join :: "string \<Rightarrow> string list \<Rightarrow> string" where
  "join sep [] = []"
| "join sep [x] = x"
| "join sep (x # y # ys) = x @ sep @ join sep (y # ys)"

definition attributes :: "attrs \<Rightarrow> string" where
  "attributes a =
     (case src_attr a of None \<Rightarrow> [] | Some v \<Rightarrow> attribute ''src'' v) @
     (case alt_attr a of None \<Rightarrow> [] | Some v \<Rightarrow> attribute ''alt'' v) @
     (if classList a = [] then [] else attribute ''class'' (join '' '' (classList a))) @
     (case componentId a of None \<Rightarrow> [] | Some v \<Rightarrow> attribute ''data-component-id'' v) @
     (if inline_style a = [] then []
      else attribute ''style'' (join '' '' (map (\<lambda>(p, v). p @ '': '' @ v @ '';'') (inline_style a))))"

definition void_element :: "string \<Rightarrow> bool" where
  "void_element t = (t \<in> set [''img'', ''br'', ''hr'', ''input''])"

fun outerHTML :: "node \<Rightarrow> string" where
  "outerHTML (TextNode t) = escape False t"
| "outerHTML (Element a ks) =
     ''<'' @ localName a @ attributes a @ ''>'' @
     (if void_element (localName a) then []
      else concat (map outerHTML ks) @ ''</'' @ localName a @ ''>'')"

definition innerHTML :: "node list \<Rightarrow> string" where
  "innerHTML ks = concat (map outerHTML ks)"

section \<open>The component manager\<close>

subsection \<open>Component data\<close>

text \<open>\<^verbatim>\<open>ComponentData\<close>, \<^verbatim>\<open>ImageProps\<close> and the values a property bag
  (\<^verbatim>\<open>Record<string, any>\<close>) holds in this program: strings, numbers, lists of
  \<^verbatim>\<open>{src, alt}\<close> and \<^verbatim>\<open>undefined\<close>. A bag keeps its keys in insertion order, and
  the spread \<^verbatim>\<open>{...a, ...b}\<close> overwrites the keys of \<open>a\<close> that \<open>b\<close> has and appends the
  others.\<close>

datatype component_type = Image | Layout | Gallery | Figure | Quote | Comparison | Hero

datatype layout = Inline | FloatLeft | FloatRight | Center | FigureLayout

fun layout_name :: "layout \<Rightarrow> string" where
  "layout_name Inline = ''inline''"
| "layout_name FloatLeft = ''float-left''"
| "layout_name FloatRight = ''float-right''"
| "layout_name Center = ''center''"
| "layout_name FigureLayout = ''figure''"

datatype prop_value = Str string | Num nat | Images "(string \<times> string) list" | Undefined

type_synonym props = "(string \<times> prop_value) list"

record ComponentData =
  cd_id :: string
  cd_type :: component_type
  cd_props :: props
  cd_element :: "nid option"

text \<open>\<^verbatim>\<open>Partial<ImageProps>\<close>: every field may be missing.\<close>

record ImageProps =
  ip_src :: "string option"
  ip_alt :: "string option"
  ip_width :: "string option"
  ip_layout :: "layout option"
  ip_caption :: "string option"

definition spread :: "props \<Rightarrow> props \<Rightarrow> props" where
  "spread a b = fold (\<lambda>(k, v). AList.update k v) b a"

definition image_entries :: "ImageProps \<Rightarrow> props" where
  "image_entries p =
     (case ip_src p of None \<Rightarrow> [] | Some v \<Rightarrow> [(''src'', Str v)]) @
     (case ip_alt p of None \<Rightarrow> [] | Some v \<Rightarrow> [(''alt'', Str v)]) @
     (case ip_width p of None \<Rightarrow> [] | Some v \<Rightarrow> [(''width'', Str v)]) @
     (case ip_layout p of None \<Rightarrow> [] | Some l \<Rightarrow> [(''layout'', Str (layout_name l))]) @
     (case ip_caption p of None \<Rightarrow> [] | Some v \<Rightarrow> [(''caption'', Str v)])"

text \<open>Decimal digits of a number, for \<^verbatim>\<open>Date.now()\<close> inside a template string and for
  a number assigned to a string attribute.\<close>

definition digit :: "nat \<Rightarrow> char" where
  "digit d = ''0123456789'' ! d"

fun decimal :: "nat \<Rightarrow> string" where
  "decimal n = (if n < 10 then [digit n] else decimal (n div 10) @ [digit (n mod 10)])"

declare decimal.simps [simp del]

text \<open>JavaScript truthiness and string conversion of a property value.\<close>

fun truthy :: "prop_value \<Rightarrow> bool" where
  "truthy (Str v) = (v \<noteq> [])"
| "truthy (Num n) = (n \<noteq> 0)"
| "truthy (Images xs) = True"
| "truthy Undefined = False"

fun to_string :: "prop_value \<Rightarrow> string" where
  "to_string (Str v) = v"
| "to_string (Num n) = decimal n"
| "to_string (Images xs) = join '','' (map (\<lambda>x. ''[object Object]'') xs)"
| "to_string Undefined = ''undefined''"

subsection \<open>The manager and its host\<close>

text \<open>
  The fields of \<^verbatim>\<open>ComponentManager\<close>: the \<^verbatim>\<open>Map\<close> of components (an association
  list in insertion order, as \<^verbatim>\<open>Map\<close> iterates), the editor and the content input (both
  \<^verbatim>\<open>null\<close> before \<^verbatim>\<open>init\<close>) and the \<^verbatim>\<open>Set\<close> of change listeners (listener functions
  are opaque, so a listener is its identity). With them, the host state the methods act on:
  the document, the next free node identity, the \<^verbatim>\<open>value\<close> of every input element, the
  number of identifiers generated so far, and the trace of listener calls made.

  \<^verbatim>\<open>Date.now()\<close> and \<^verbatim>\<open>Math.random().toString(36).substr(2, 9)\<close> come from the host:
  \<open>env k\<close> is the pair of the two that the \<open>k\<close>-th call of \<^verbatim>\<open>generateId\<close> reads.
\<close>

type_synonym listener = nat

type_synonym env = "nat \<Rightarrow> nat \<times> string"

record manager =
  components :: "(string \<times> ComponentData) list"
  editor :: "nid option"
  contentInput :: "nid option"
  changeListeners :: "listener list"
  document :: "node list"
  next_node :: nid
  input_value :: "nid \<Rightarrow> string"
  generated :: nat
  notified :: "(listener \<times> string \<times> ComponentData) list"

definition make_id :: "nat \<times> string \<Rightarrow> string" where
  "make_id p = ''cmp-'' @ decimal (fst p) @ ''-'' @ snd p"

definition generateId :: "env \<Rightarrow> manager \<Rightarrow> string \<times> manager" where
  "generateId env s = (make_id (env (generated s)), s\<lparr>generated := Suc (generated s)\<rparr>)"

subsection \<open>Type detection and property extraction\<close>

definition has_class :: "string \<Rightarrow> attrs \<times> node list \<Rightarrow> bool" where
  "has_class c e = (c \<in> set (classList (fst e)))"

definition has_tag :: "string \<Rightarrow> attrs \<times> node list \<Rightarrow> bool" where
  "has_tag t e = (localName (fst e) = t)"

definition detectComponentType :: "attrs \<times> node list \<Rightarrow> component_type" where
  "detectComponentType e =
     (if has_class ''blog-layout'' e then Layout
      else if has_class ''blog-gallery'' e then Gallery
      else if has_class ''blog-hero'' e then Hero
      else if has_class ''blog-quote'' e then Quote
      else if has_class ''blog-comparison'' e then Comparison
      else if has_class ''blog-figure'' e \<or> has_tag ''figure'' e then Figure
      else Image)"

definition detectImageLayout :: "nid \<Rightarrow> node list \<Rightarrow> layout" where
  "detectImageLayout n f =
     (case find_node n f of
        None \<Rightarrow> Inline
      | Some img \<Rightarrow>
          if has_class ''float-left'' img then FloatLeft
          else if has_class ''float-right'' img then FloatRight
          else if has_class ''center'' img then Center
          else if closest (has_tag ''figure'') n f \<noteq> None then FigureLayout
          else Inline)"

definition image_pair :: "attrs \<times> node list \<Rightarrow> string \<times> string" where
  "image_pair img = (src_of (fst img), alt_of (fst img))"

definition text_of :: "attrs \<times> node list \<Rightarrow> string" where
  "text_of e = textContent (Element (fst e) (snd e))"

text \<open>The selector \<^verbatim>\<open>p, div:not(:has(img))\<close>.\<close>

definition text_block :: "attrs \<times> node list \<Rightarrow> bool" where
  "text_block e =
     (has_tag ''p'' e \<or> (has_tag ''div'' e \<and> querySelector (has_tag ''img'') e = None))"

definition or_default :: "string \<Rightarrow> string \<Rightarrow> string" where
  "or_default v d = (if v = [] then d else v)"

fun extractProps :: "attrs \<times> node list \<Rightarrow> component_type \<Rightarrow> props" where
  "extractProps e Image =
     (case (if has_tag ''img'' e then Some e else querySelector (has_tag ''img'') e) of
        None \<Rightarrow> []
      | Some img \<Rightarrow>
          [(''src'', Str (src_of (fst img))), (''alt'', Str (alt_of (fst img))),
           (''width'', Str (style_get ''width'' (inline_style (fst img))))])"
| "extractProps e Layout =
     [(''layoutType'',
        Str (if has_class ''image-left'' e then ''image-left''
             else if has_class ''image-right'' e then ''image-right''
             else if has_class ''split-50-50'' e then ''split-50-50'' else ''custom'')),
      (''images'', Images (map image_pair (querySelectorAll (has_tag ''img'') e))),
      (''text'',
        Str (case querySelector text_block e of
               None \<Rightarrow> []
             | Some b \<Rightarrow> innerHTML (snd b)))]"
| "extractProps e Gallery =
     [(''columns'',
        Num (if CHR ''3'' \<in> set (style_get ''grid-template-columns'' (inline_style (fst e)))
             then 3 else 2)),
      (''images'', Images (map image_pair (querySelectorAll (has_tag ''img'') e)))]"
| "extractProps e Figure =
     (case querySelector (has_tag ''img'') e of
        None \<Rightarrow> []
      | Some img \<Rightarrow> [(''src'', Str (src_of (fst img))), (''alt'', Str (alt_of (fst img)))]) @
     (case querySelector (has_tag ''figcaption'') e of
        None \<Rightarrow> []
      | Some caption \<Rightarrow> [(''caption'', Str (text_of caption))])"
| "extractProps e Quote =
     (case querySelector (has_tag ''img'') e of
        None \<Rightarrow> []
      | Some img \<Rightarrow> [(''avatarSrc'', Str (src_of (fst img)))]) @
     (case querySelector (has_tag ''blockquote'') e of
        None \<Rightarrow> []
      | Some b \<Rightarrow> [(''quote'', Str (text_of b))]) @
     (case querySelector (has_tag ''cite'') e of
        None \<Rightarrow> []
      | Some c \<Rightarrow> [(''author'', Str (text_of c))])"
| "extractProps e Comparison =
     (let images = querySelectorAll (has_tag ''img'') e;
          captions = querySelectorAll (has_tag ''figcaption'') e
      in [(''beforeImage'', (case images of [] \<Rightarrow> Undefined | i # _ \<Rightarrow> Str (src_of (fst i)))),
          (''afterImage'',
             (case drop 1 images of [] \<Rightarrow> Undefined | i # _ \<Rightarrow> Str (src_of (fst i)))),
          (''beforeLabel'',
             Str (case captions of [] \<Rightarrow> ''Before'' | c # _ \<Rightarrow> or_default (text_of c) ''Before'')),
          (''afterLabel'',
             Str (case drop 1 captions of
                    [] \<Rightarrow> ''After''
                  | c # _ \<Rightarrow> or_default (text_of c) ''After''))])"
| "extractProps e Hero = []"

subsection \<open>Registration\<close>

text \<open>An element is passed by identity. An identity outside the forest denotes no object:
  no call of the program passes one, and the model stores no record for it.\<close>

definition set_component :: "string \<Rightarrow> ComponentData \<Rightarrow> manager \<Rightarrow> manager" where
  "set_component i c s = s\<lparr>components := AList.update i c (components s)\<rparr>"

definition registerElement :: "env \<Rightarrow> nid \<Rightarrow> manager \<Rightarrow> string \<times> manager" where
  "registerElement env n s =
     (let (i, s1) = generateId env s;
          s2 = s1\<lparr>document := set_componentId n i (document s1)\<rparr>
      in case find_node n (document s2) of
           None \<Rightarrow> (i, s2)
         | Some e \<Rightarrow>
             (let t = detectComponentType e;
                  data = \<lparr>cd_id = i, cd_type = t, cd_props = extractProps e t,
                          cd_element = Some n\<rparr>
              in (i, set_component i data s2)))"

definition registerImage :: "env \<Rightarrow> nid \<Rightarrow> manager \<Rightarrow> string \<times> manager" where
  "registerImage env n s =
     (let (i, s1) = generateId env s;
          s2 = s1\<lparr>document := set_componentId n i (document s1)\<rparr>
      in case find_node n (document s2) of
           None \<Rightarrow> (i, s2)
         | Some img \<Rightarrow>
             (let data = \<lparr>cd_id = i, cd_type = Image,
                          cd_props =
                            [(''src'', Str (src_of (fst img))), (''alt'', Str (alt_of (fst img))),
                             (''width'',
                                Str (or_default (style_get ''width'' (inline_style (fst img)))
                                       ''100%'')),
                             (''layout'', Str (layout_name (detectImageLayout n (document s2))))],
                          cd_element = Some n\<rparr>
              in (i, set_component i data s2)))"

definition getComponent :: "string \<Rightarrow> manager \<Rightarrow> ComponentData option" where
  "getComponent i s = map_of (components s) i"

definition getComponentByElement :: "nid \<Rightarrow> manager \<Rightarrow> ComponentData option" where
  "getComponentByElement n s =
     (case find_node n (document s) of
        None \<Rightarrow> None
      | Some e \<Rightarrow>
          (case componentId (fst e) of
             None \<Rightarrow> None
           | Some i \<Rightarrow> if i = [] then None else map_of (components s) i))"

definition getAllComponents :: "manager \<Rightarrow> ComponentData list" where
  "getAllComponents s = map snd (components s)"

definition getComponentsByType :: "component_type \<Rightarrow> manager \<Rightarrow> ComponentData list" where
  "getComponentsByType t s = filter (\<lambda>c. cd_type c = t) (map snd (components s))"

subsection \<open>Content synchronisation and change listeners\<close>

definition editor_markup :: "manager \<Rightarrow> nid \<Rightarrow> string" where
  "editor_markup s ed =
     (case find_node ed (document s) of None \<Rightarrow> [] | Some e \<Rightarrow> innerHTML (snd e))"

definition syncContent :: "manager \<Rightarrow> manager" where
  "syncContent s =
     (case editor s of
        None \<Rightarrow> s
      | Some ed \<Rightarrow>
          (case contentInput s of
             None \<Rightarrow> s
           | Some inp \<Rightarrow> s\<lparr>input_value := (input_value s)(inp := editor_markup s ed)\<rparr>))"

text \<open>\<^verbatim>\<open>onChange\<close> adds the listener to the set and returns the function that deletes
  it again, here \<open>unsubscribe\<close>. A listener is called with the identifier and the
  component; the call is recorded in the trace.\<close>

definition onChange :: "listener \<Rightarrow> manager \<Rightarrow> manager" where
  "onChange l s =
     s\<lparr>changeListeners :=
          (if l \<in> set (changeListeners s) then changeListeners s else changeListeners s @ [l])\<rparr>"

definition unsubscribe :: "listener \<Rightarrow> manager \<Rightarrow> manager" where
  "unsubscribe l s = s\<lparr>changeListeners := removeAll l (changeListeners s)\<rparr>"

definition notifyListeners :: "string \<Rightarrow> ComponentData \<Rightarrow> manager \<Rightarrow> manager" where
  "notifyListeners i c s =
     s\<lparr>notified := notified s @ map (\<lambda>l. (l, i, c)) (changeListeners s)\<rparr>"

subsection \<open>Updates\<close>

definition prop_of :: "string \<Rightarrow> ComponentData \<Rightarrow> prop_value" where
  "prop_of k c = (case map_of (cd_props c) k of None \<Rightarrow> Undefined | Some v \<Rightarrow> v)"

definition query_id :: "string \<Rightarrow> nid \<Rightarrow> manager \<Rightarrow> nid option" where
  "query_id t n s =
     (case find_node n (document s) of
        None \<Rightarrow> None
      | Some e \<Rightarrow> map_option (node_id \<circ> fst) (querySelector (has_tag t) e))"

definition write_document :: "(node list \<Rightarrow> node list) \<Rightarrow> manager \<Rightarrow> manager" where
  "write_document g s = s\<lparr>document := g (document s)\<rparr>"

definition applyUpdatesToDOM :: "ComponentData \<Rightarrow> manager \<Rightarrow> manager" where
  "applyUpdatesToDOM c s =
     (case cd_element c of
        None \<Rightarrow> s
      | Some el \<Rightarrow>
          (case cd_type c of
             Figure \<Rightarrow>
               (let img = query_id ''img'' el s;
                    figcaption = query_id ''figcaption'' el s;
                    s1 = (case img of
                            Some n \<Rightarrow> if truthy (prop_of ''src'' c)
                                      then write_document (set_src n (to_string (prop_of ''src'' c))) s
                                      else s
                          | None \<Rightarrow> s);
                    s2 = (case img of
                            Some n \<Rightarrow> if truthy (prop_of ''alt'' c)
                                      then write_document (set_alt n (to_string (prop_of ''alt'' c))) s1
                                      else s1
                          | None \<Rightarrow> s1)
                in (case figcaption of
                      Some n \<Rightarrow> if prop_of ''caption'' c \<noteq> Undefined
                                then write_document
                                       (set_textContent n (to_string (prop_of ''caption'' c))) s2
                                else s2
                    | None \<Rightarrow> s2))
           | Quote \<Rightarrow>
               (let img = query_id ''img'' el s;
                    blockquote = query_id ''blockquote'' el s;
                    cite = query_id ''cite'' el s;
                    s1 = (case img of
                            Some n \<Rightarrow> if truthy (prop_of ''avatarSrc'' c)
                                      then write_document
                                             (set_src n (to_string (prop_of ''avatarSrc'' c))) s
                                      else s
                          | None \<Rightarrow> s);
                    s2 = (case blockquote of
                            Some n \<Rightarrow> if truthy (prop_of ''quote'' c)
                                      then write_document
                                             (set_textContent n (to_string (prop_of ''quote'' c))) s1
                                      else s1
                          | None \<Rightarrow> s1)
                in (case cite of
                      Some n \<Rightarrow> if truthy (prop_of ''author'' c)
                                then write_document
                                       (set_textContent n (to_string (prop_of ''author'' c))) s2
                                else s2
                    | None \<Rightarrow> s2))
           | _ \<Rightarrow> s))"

definition updateComponent :: "string \<Rightarrow> props \<Rightarrow> manager \<Rightarrow> bool \<times> manager" where
  "updateComponent i updates s =
     (case map_of (components s) i of
        None \<Rightarrow> (False, s)
      | Some component \<Rightarrow>
          (case cd_element component of
             None \<Rightarrow> (False, s)
           | Some el \<Rightarrow>
               (let c = component\<lparr>cd_props := spread (cd_props component) updates\<rparr>;
                    s1 = set_component i c s;
                    s2 = applyUpdatesToDOM c s1;
                    s3 = syncContent s2
                in (True, notifyListeners i c s3))))"

text \<open>The layout part of \<^verbatim>\<open>updateImage\<close>: the class list first, then the inline style.\<close>

definition layout_classes :: "layout \<Rightarrow> string list \<Rightarrow> string list" where
  "layout_classes l cl =
     (let cl1 = classList_remove [''float-left'', ''float-right'', ''center'', ''inline''] cl
      in if l \<noteq> Inline \<and> l \<noteq> FigureLayout then classList_add (layout_name l) cl1 else cl1)"

fun layout_style :: "layout \<Rightarrow> (string \<times> string) list \<Rightarrow> (string \<times> string) list" where
  "layout_style FloatLeft st =
     style_set ''margin-bottom'' ''0.5rem''
       (style_set ''margin-right'' ''1rem'' (style_set ''float'' ''left'' st))"
| "layout_style FloatRight st =
     style_set ''margin-bottom'' ''0.5rem''
       (style_set ''margin-left'' ''1rem'' (style_set ''float'' ''right'' st))"
| "layout_style Center st =
     style_set_margin ''1rem'' ''auto''
       (style_set ''display'' ''block'' (style_set ''float'' [] st))"
| "layout_style l st = style_set ''display'' [] (style_set ''float'' [] st)"

definition image_target :: "ComponentData \<Rightarrow> manager \<Rightarrow> nid option" where
  "image_target c s =
     (if cd_type c = Image then cd_element c
      else (case cd_element c of None \<Rightarrow> None | Some el \<Rightarrow> query_id ''img'' el s))"

definition patch_image :: "nid \<Rightarrow> ImageProps \<Rightarrow> node list \<Rightarrow> node list" where
  "patch_image img p f =
     (let f1 = (case ip_src p of None \<Rightarrow> f | Some v \<Rightarrow> set_src img v f);
          f2 = (case ip_alt p of None \<Rightarrow> f1 | Some v \<Rightarrow> set_alt img v f1);
          f3 = (case ip_width p of None \<Rightarrow> f2 | Some v \<Rightarrow> set_style img (style_set ''width'' v) f2)
      in (case ip_layout p of
            None \<Rightarrow> f3
          | Some l \<Rightarrow> set_style img (layout_style l) (set_class img (layout_classes l) f3)))"

definition updateImage :: "string \<Rightarrow> ImageProps \<Rightarrow> manager \<Rightarrow> bool \<times> manager" where
  "updateImage i p s =
     (case map_of (components s) i of
        None \<Rightarrow> (False, s)
      | Some component \<Rightarrow>
          (case image_target component s of
             None \<Rightarrow> (False, s)
           | Some img \<Rightarrow>
               (let s1 = write_document (patch_image img p) s;
                    c = component\<lparr>cd_props := spread (cd_props component) (image_entries p)\<rparr>;
                    s2 = set_component i c s1;
                    s3 = syncContent s2
                in (True, notifyListeners i c s3))))"

definition removeComponent :: "string \<Rightarrow> manager \<Rightarrow> bool \<times> manager" where
  "removeComponent i s =
     (case map_of (components s) i of
        None \<Rightarrow> (False, s)
      | Some component \<Rightarrow>
          (case cd_element component of
             None \<Rightarrow> (False, s)
           | Some el \<Rightarrow>
               (let s1 = write_document (remove_node el) s;
                    s2 = s1\<lparr>components := AList.delete i (components s1)\<rparr>
                in (True, syncContent s2))))"

subsection \<open>The mutation observer\<close>

text \<open>The callback that \<^verbatim>\<open>setupMutationObserver\<close> installs. The host calls it with the
  records of a batch; a record lists the nodes removed from and added to one child list.
  Only a node that is an \<^verbatim>\<open>HTMLElement\<close> is looked at, and only the listed node itself,
  not what is below it.\<close>

datatype mutation_node = HTMLElement nid | OtherNode

record MutationRecord =
  removedNodes :: "mutation_node list"
  addedNodes :: "mutation_node list"

definition isComponentElement :: "attrs \<times> node list \<Rightarrow> bool" where
  "isComponentElement e =
     (has_class ''blog-layout'' e \<or> has_class ''blog-gallery'' e \<or> has_class ''blog-hero'' e \<or>
      has_class ''blog-quote'' e \<or> has_class ''blog-comparison'' e \<or>
      has_class ''blog-figure'' e \<or> has_class ''blog-image-wrapper'' e \<or> has_tag ''figure'' e)"

fun handle_removed :: "mutation_node \<Rightarrow> manager \<Rightarrow> manager" where
  "handle_removed OtherNode s = s"
| "handle_removed (HTMLElement n) s =
     (case find_node n (document s) of
        None \<Rightarrow> s
      | Some e \<Rightarrow>
          (case componentId (fst e) of
             None \<Rightarrow> s
           | Some i \<Rightarrow> if i = [] then s else s\<lparr>components := AList.delete i (components s)\<rparr>))"

definition register_if :: "(attrs \<times> node list \<Rightarrow> bool) \<Rightarrow> (nid \<Rightarrow> manager \<Rightarrow> string \<times> manager) \<Rightarrow>
    nid \<Rightarrow> manager \<Rightarrow> manager" where
  "register_if cond register n s =
     (case find_node n (document s) of
        None \<Rightarrow> s
      | Some e \<Rightarrow> if cond e \<and> no_componentId (fst e) then snd (register n s) else s)"

fun handle_added :: "env \<Rightarrow> mutation_node \<Rightarrow> manager \<Rightarrow> manager" where
  "handle_added env OtherNode s = s"
| "handle_added env (HTMLElement n) s =
     register_if (has_tag ''img'') (registerImage env) n
       (register_if isComponentElement (registerElement env) n s)"

definition handle_mutation :: "env \<Rightarrow> MutationRecord \<Rightarrow> manager \<Rightarrow> manager" where
  "handle_mutation env m s =
     fold (handle_added env) (addedNodes m) (fold handle_removed (removedNodes m) s)"

definition mutation_callback :: "env \<Rightarrow> MutationRecord list \<Rightarrow> manager \<Rightarrow> manager" where
  "mutation_callback env mutations s = fold (handle_mutation env) mutations s"

subsection \<open>Initialisation\<close>

definition scan_selectors :: "(attrs \<times> node list \<Rightarrow> bool) list" where
  "scan_selectors =
     [has_class ''blog-layout'', has_class ''blog-gallery'', has_class ''blog-hero'',
      has_class ''blog-quote'', has_class ''blog-comparison'', has_class ''blog-figure'',
      has_class ''blog-image-wrapper'',
      (\<lambda>e. has_tag ''figure'' e \<and> \<not> has_class ''blog-figure'' e)]"

definition select_ids :: "(attrs \<times> node list \<Rightarrow> bool) \<Rightarrow> nid \<Rightarrow> manager \<Rightarrow> nid list" where
  "select_ids sel ed s =
     (case find_node ed (document s) of
        None \<Rightarrow> []
      | Some e \<Rightarrow> map (node_id \<circ> fst) (querySelectorAll sel e))"

definition standalone_image :: "attrs \<times> node list \<Rightarrow> bool" where
  "standalone_image e =
     (has_tag ''img'' e \<and> (has_class ''blog-image'' e \<or> has_class ''editable'' e))"

definition scan_image :: "env \<Rightarrow> nid \<Rightarrow> manager \<Rightarrow> manager" where
  "scan_image env n s =
     (if closest (\<lambda>e. componentId (fst e) \<noteq> None) n (document s) = None
      then register_if (\<lambda>e. True) (registerImage env) n s
      else s)"

definition scanExistingComponents :: "env \<Rightarrow> manager \<Rightarrow> manager" where
  "scanExistingComponents env s =
     (case editor s of
        None \<Rightarrow> s
      | Some ed \<Rightarrow>
          (let s1 = fold (\<lambda>sel s'. fold (register_if (\<lambda>e. True) (registerElement env))
                                      (select_ids sel ed s') s')
                      scan_selectors s
           in fold (scan_image env) (select_ids standalone_image ed s1) s1))"

definition init :: "env \<Rightarrow> nid \<Rightarrow> nid \<Rightarrow> manager \<Rightarrow> manager" where
  "init env ed inp s = scanExistingComponents env (s\<lparr>editor := Some ed, contentInput := Some inp\<rparr>)"

subsection \<open>Insertion and duplication\<close>

text \<open>\<^verbatim>\<open>insertImage\<close>. The selection is host state: \<open>Some b\<close> when
  \<^verbatim>\<open>window.getSelection()\<close> has a range, which starts at the boundary point \<open>b\<close>. The
  four elements are created in the order of the source: the wrapper, the image, the
  paragraph and the line break that \<^verbatim>\<open>p.innerHTML = '<br>'\<close> parses.\<close>

definition new_element :: "nid \<Rightarrow> string \<Rightarrow> attrs" where
  "new_element n t =
     \<lparr>node_id = n, localName = t, classList = [], componentId = None, src_attr = None,
      alt_attr = None, inline_style = []\<rparr>"

definition image_wrapper :: "nid \<Rightarrow> string \<Rightarrow> string \<Rightarrow> string \<Rightarrow> string \<Rightarrow> layout \<Rightarrow> node" where
  "image_wrapper n i src alt width l =
     Element
       ((new_element n ''div'')
          \<lparr>classList := [''blog-image-wrapper''], componentId := Some i,
           inline_style := style_set_margin ''1rem'' ''0px'' []\<rparr>)
       [Element
          ((new_element (n + 1) ''img'')
             \<lparr>src_attr := Some src, alt_attr := Some alt,
              classList := [''blog-image'', ''editable''] @
                           (if l \<noteq> Inline then [layout_name l] else []),
              inline_style :=
                style_set ''display'' ''block''
                  (style_set ''cursor'' ''pointer''
                    (style_set ''height'' ''auto''
                      (style_set ''width'' width (style_set ''max-width'' ''100%'' []))))\<rparr>)
          []]"

definition empty_paragraph :: "nid \<Rightarrow> node" where
  "empty_paragraph n = Element (new_element n ''p'') [Element (new_element (n + 1) ''br'') []]"

definition insertImage :: "env \<Rightarrow> string \<Rightarrow> string \<Rightarrow> ImageProps \<Rightarrow> boundary option \<Rightarrow> manager \<Rightarrow>
    string \<times> manager" where
  "insertImage env src alt options selection s =
     (case editor s of
        None \<Rightarrow> ([], s)
      | Some ed \<Rightarrow>
          (let (i, s1) = generateId env s;
               width = (case ip_width options of None \<Rightarrow> ''100%'' | Some w \<Rightarrow> or_default w ''100%'');
               l = (case ip_layout options of None \<Rightarrow> Inline | Some l \<Rightarrow> l);
               n = next_node s1;
               wrapper = image_wrapper n i src alt width l;
               s2 = s1\<lparr>next_node := n + 4\<rparr>;
               s3 = (case selection of
                       Some b \<Rightarrow> write_document (insertNode b wrapper) s2
                     | None \<Rightarrow> write_document (appendChild ed wrapper) s2);
               s4 = write_document (after n (empty_paragraph (n + 2))) s3;
               data = \<lparr>cd_id = i, cd_type = Image,
                       cd_props = [(''src'', Str src), (''alt'', Str alt), (''width'', Str width),
                                   (''layout'', Str (layout_name l))],
                       cd_element = Some n\<rparr>
           in (i, syncContent (set_component i data s4))))"

text \<open>\<^verbatim>\<open>duplicateComponent\<close>. When the source element has no parent, \<^verbatim>\<open>after\<close> does
  nothing and the clone stays a detached tree. (A stored element always denotes an object;
  the model answers \<open>None\<close> for an identity outside the forest.)\<close>

definition duplicateComponent :: "env \<Rightarrow> string \<Rightarrow> manager \<Rightarrow> string option \<times> manager" where
  "duplicateComponent env i s =
     (case map_of (components s) i of
        None \<Rightarrow> (None, s)
      | Some component \<Rightarrow>
          (case cd_element component of
             None \<Rightarrow> (None, s)
           | Some el \<Rightarrow>
               (case find_node el (document s) of
                  None \<Rightarrow> (None, s)
                | Some e \<Rightarrow>
                    (let (newId, s1) = generateId env s;
                         k = next_node s1;
                         clone = Element ((fst e)\<lparr>node_id := k + el, componentId := Some newId\<rparr>)
                                   (map (cloneNode k) (snd e));
                         s2 = s1\<lparr>next_node := k + k\<rparr>;
                         s3 = (if has_parent el (document s2)
                               then write_document (after el clone) s2
                               else write_document (\<lambda>f. f @ [clone]) s2);
                         newData = \<lparr>cd_id = newId, cd_type = cd_type component,
                                    cd_props = cd_props component, cd_element = Some (k + el)\<rparr>
                     in (Some newId, syncContent (set_component newId newData s3))))))"

section \<open>Properties\<close>

subsection \<open>Observations and sample states\<close>

text \<open>The output field is in sync when its value is the markup of the editor.\<close>

definition in_sync :: "nid \<Rightarrow> nid \<Rightarrow> manager \<Rightarrow> bool" where
  "in_sync ed inp s = (input_value s inp = editor_markup s ed)"

text \<open>A manager before \<^verbatim>\<open>init\<close> on a page that holds an empty editor element, and an
  initialised manager whose editor holds a tracked figure and a tracked image.\<close>

definition blank :: manager where
  "blank =
     \<lparr>components = [], editor = None, contentInput = None, changeListeners = [],
      document = [Element (new_element 0 ''div'') []], next_node = 1,
      input_value = (\<lambda>n. []), generated = 0, notified = []\<rparr>"

definition figure_node :: node where
  "figure_node =
     Element ((new_element 1 ''figure'')\<lparr>componentId := Some ''c1''\<rparr>)
       [Element ((new_element 2 ''img'')\<lparr>src_attr := Some ''a.png''\<rparr>) [],
        Element (new_element 3 ''figcaption'') [TextNode ''A'']]"

definition image_node :: node where
  "image_node =
     Element ((new_element 4 ''img'')
                \<lparr>classList := [''blog-image''], componentId := Some ''c2'',
                 src_attr := Some ''b.png''\<rparr>) []"

definition figure_data :: ComponentData where
  "figure_data =
     \<lparr>cd_id = ''c1'', cd_type = Figure,
      cd_props = [(''src'', Str ''a.png''), (''alt'', Str []), (''caption'', Str ''A'')],
      cd_element = Some 1\<rparr>"

definition image_data :: ComponentData where
  "image_data =
     \<lparr>cd_id = ''c2'', cd_type = Image,
      cd_props = [(''src'', Str ''b.png''), (''alt'', Str []), (''width'', Str ''100%''),
                  (''layout'', Str ''inline'')],
      cd_element = Some 4\<rparr>"

definition demo :: manager where
  "demo =
     \<lparr>components = [(''c1'', figure_data), (''c2'', image_data)],
      editor = Some 0, contentInput = Some 100, changeListeners = [],
      document = [Element (new_element 0 ''div'') [figure_node, image_node]], next_node = 5,
      input_value = (\<lambda>n. []), generated = 0, notified = []\<rparr>"

definition only_layout :: "layout \<Rightarrow> ImageProps" where
  "only_layout l =
     \<lparr>ip_src = None, ip_alt = None, ip_width = None, ip_layout = Some l, ip_caption = None\<rparr>"

text \<open>Reading the attributes of the element with a given identity.\<close>

definition attrs_of :: "nid \<Rightarrow> node list \<Rightarrow> attrs option" where
  "attrs_of n f = map_option fst (find_node n f)"

text \<open>What \<^verbatim>\<open>updateImage\<close> writes, as one function on the attributes of the patched
  element: the composition of its writes, in the order of the source.\<close>

definition patch_attrs :: "ImageProps \<Rightarrow> attrs \<Rightarrow> attrs" where
  "patch_attrs p =
     (case ip_layout p of
        None \<Rightarrow> id
      | Some l \<Rightarrow> (\<lambda>a. a\<lparr>inline_style := layout_style l (inline_style a)\<rparr>) \<circ>
                  (\<lambda>a. a\<lparr>classList := layout_classes l (classList a)\<rparr>)) \<circ>
     (case ip_width p of
        None \<Rightarrow> id
      | Some v \<Rightarrow> (\<lambda>a. a\<lparr>inline_style := style_set ''width'' v (inline_style a)\<rparr>)) \<circ>
     (case ip_alt p of
        None \<Rightarrow> id
      | Some v \<Rightarrow> (\<lambda>a. if localName a = ''img'' then a\<lparr>alt_attr := Some v\<rparr> else a)) \<circ>
     (case ip_src p of
        None \<Rightarrow> id
      | Some v \<Rightarrow> (\<lambda>a. if localName a = ''img'' then a\<lparr>src_attr := Some v\<rparr> else a))"

text \<open>Applying one layout, and one layout after another, to a tracked component.\<close>

definition apply_layout :: "string \<Rightarrow> layout \<Rightarrow> manager \<Rightarrow> manager" where
  "apply_layout i l s = snd (updateImage i (only_layout l) s)"

text \<open>The declarations that the style part of the layout patch assigns, in order.\<close>

fun layout_decls :: "layout \<Rightarrow> (string \<times> string) list" where
  "layout_decls FloatLeft =
     [(''float'', ''left''), (''margin-right'', ''1rem''), (''margin-bottom'', ''0.5rem'')]"
| "layout_decls FloatRight =
     [(''float'', ''right''), (''margin-left'', ''1rem''), (''margin-bottom'', ''0.5rem'')]"
| "layout_decls Center =
     [(''float'', []), (''display'', ''block''), (''margin-top'', ''1rem''),
      (''margin-right'', ''auto''), (''margin-bottom'', ''1rem''), (''margin-left'', ''auto'')]"
| "layout_decls l = [(''float'', []), (''display'', [])]"

text \<open>The layout state of an element: its layout classes and its float, display and
  margin declarations.\<close>

definition layout_state :: "attrs \<Rightarrow> string list \<times> (string \<times> string) list" where
  "layout_state a =
     (filter (\<lambda>c. c \<in> set [''float-left'', ''float-right'', ''center'', ''inline''])
        (classList a),
      filter (\<lambda>d. fst d \<in> set [''float'', ''display'', ''margin-top'', ''margin-right'',
                                  ''margin-bottom'', ''margin-left''])
        (inline_style a))"

text \<open>The operations that register a component, and a run of them that collects the
  identifiers produced. An \<^verbatim>\<open>insertImage\<close> that returns the empty string has registered
  nothing.\<close>

datatype registration =
    RegisterElement nid
  | RegisterImage nid
  | InsertImage string string ImageProps "boundary option"
  | DuplicateComponent string

fun register :: "env \<Rightarrow> registration \<Rightarrow> manager \<Rightarrow> string option \<times> manager" where
  "register env (RegisterElement n) s = map_prod Some id (registerElement env n s)"
| "register env (RegisterImage n) s = map_prod Some id (registerImage env n s)"
| "register env (InsertImage src alt options selection) s =
     map_prod (\<lambda>i. if i = [] then None else Some i) id (insertImage env src alt options selection s)"
| "register env (DuplicateComponent i) s = duplicateComponent env i s"

fun registrations :: "env \<Rightarrow> registration list \<Rightarrow> manager \<Rightarrow> string list \<times> manager" where
  "registrations env [] s = ([], s)"
| "registrations env (r # rs) s =
     (case register env r s of
        (None, s') \<Rightarrow> registrations env rs s'
      | (Some i, s') \<Rightarrow> map_prod (Cons i) id (registrations env rs s'))"

text \<open>An initialised manager with an empty editor.\<close>

definition ready :: manager where
  "ready = blank\<lparr>editor := Some 0, contentInput := Some 100\<rparr>"

text \<open>A document that is the forest \<open>f\<close> with some new subtree, whose identities all lie
  in \<open>S\<close>, inserted as the next sibling of the element \<open>el\<close>.\<close>

definition inserted_after :: "nid \<Rightarrow> node list \<Rightarrow> nid set \<Rightarrow> manager \<Rightarrow> bool" where
  "inserted_after el f S t =
     (\<exists>new. document t = after el new f \<and> set (node_ids [new]) \<subseteq> S)"

text \<open>The elements in the editable root: all elements below the editor element.\<close>

definition editor_descendants :: "manager \<Rightarrow> (attrs \<times> node list) list" where
  "editor_descendants s =
     (case editor s of
        None \<Rightarrow> []
      | Some ed \<Rightarrow>
          (case find_node ed (document s) of
             None \<Rightarrow> []
           | Some e \<Rightarrow> descendants (Element (fst e) (snd e))))"

definition markers :: "manager \<Rightarrow> (nid \<times> string option) list" where
  "markers s = map (\<lambda>e. (node_id (fst e), componentId (fst e))) (editor_descendants s)"

text \<open>The sample manager after the host has moved the tracked figure behind the tracked
  image (as a drag inside the editor does), and the batch of records the observer then
  gets: the figure removed from its old place, the figure added at its new place.\<close>

definition moved :: manager where
  "moved = demo\<lparr>document := [Element (new_element 0 ''div'') [image_node, figure_node]]\<rparr>"

definition move_batch :: "MutationRecord list" where
  "move_batch =
     [\<lparr>removedNodes = [HTMLElement 1], addedNodes = []\<rparr>,
      \<lparr>removedNodes = [], addedNodes = [HTMLElement 1]\<rparr>]"

subsection \<open>What the helpers leave alone\<close>

lemma syncContent_fields [simp]:
  "editor (syncContent s) = editor s" "contentInput (syncContent s) = contentInput s"
  "components (syncContent s) = components s" "document (syncContent s) = document s"
  "notified (syncContent s) = notified s" "changeListeners (syncContent s) = changeListeners s"
  "next_node (syncContent s) = next_node s" "generated (syncContent s) = generated s"
  by (simp_all add: syncContent_def split: option.splits)

lemma notifyListeners_fields [simp]:
  "editor (notifyListeners i c s) = editor s" "contentInput (notifyListeners i c s) = contentInput s"
  "components (notifyListeners i c s) = components s" "document (notifyListeners i c s) = document s"
  "input_value (notifyListeners i c s) = input_value s"
  "changeListeners (notifyListeners i c s) = changeListeners s"
  "next_node (notifyListeners i c s) = next_node s" "generated (notifyListeners i c s) = generated s"
  by (simp_all add: notifyListeners_def)

lemma set_component_fields [simp]:
  "editor (set_component i c s) = editor s" "contentInput (set_component i c s) = contentInput s"
  "document (set_component i c s) = document s" "input_value (set_component i c s) = input_value s"
  "notified (set_component i c s) = notified s"
  "changeListeners (set_component i c s) = changeListeners s"
  "next_node (set_component i c s) = next_node s" "generated (set_component i c s) = generated s"
  "components (set_component i c s) = AList.update i c (components s)"
  by (simp_all add: set_component_def)

lemma write_document_fields [simp]:
  "editor (write_document g s) = editor s" "contentInput (write_document g s) = contentInput s"
  "components (write_document g s) = components s" "input_value (write_document g s) = input_value s"
  "notified (write_document g s) = notified s"
  "changeListeners (write_document g s) = changeListeners s"
  "next_node (write_document g s) = next_node s" "generated (write_document g s) = generated s"
  "document (write_document g s) = g (document s)"
  by (simp_all add: write_document_def)

lemma applyUpdatesToDOM_frame:
  "applyUpdatesToDOM c s = s\<lparr>document := document (applyUpdatesToDOM c s)\<rparr>"
  by (simp add: applyUpdatesToDOM_def Let_def write_document_def
        split: option.splits component_type.splits)

lemma applyUpdatesToDOM_fields [simp]:
  "editor (applyUpdatesToDOM c s) = editor s" "contentInput (applyUpdatesToDOM c s) = contentInput s"
  "components (applyUpdatesToDOM c s) = components s"
  "input_value (applyUpdatesToDOM c s) = input_value s"
  "notified (applyUpdatesToDOM c s) = notified s"
  "changeListeners (applyUpdatesToDOM c s) = changeListeners s"
  "next_node (applyUpdatesToDOM c s) = next_node s" "generated (applyUpdatesToDOM c s) = generated s"
  by (subst applyUpdatesToDOM_frame, simp)+

lemma editor_markup_cong:
  "document s = document t \<Longrightarrow> editor_markup s ed = editor_markup t ed"
  by (simp add: editor_markup_def)

lemma in_sync_syncContent:
  "editor s = Some ed \<Longrightarrow> contentInput s = Some inp \<Longrightarrow> in_sync ed inp (syncContent s)"
  by (simp add: in_sync_def syncContent_def editor_markup_def)

lemma in_sync_notifyListeners:
  "in_sync ed inp s \<Longrightarrow> in_sync ed inp (notifyListeners i c s)"
  by (simp add: in_sync_def editor_markup_def)

lemma updateComponent_sync:
  assumes "editor s = Some ed" and "contentInput s = Some inp" and "fst (updateComponent i u s)"
  shows "in_sync ed inp (snd (updateComponent i u s))"
  using assms
  by (auto simp: updateComponent_def Let_def split: option.splits
           intro!: in_sync_notifyListeners in_sync_syncContent)

lemma updateImage_sync:
  assumes "editor s = Some ed" and "contentInput s = Some inp" and "fst (updateImage i p s)"
  shows "in_sync ed inp (snd (updateImage i p s))"
  using assms
  by (auto simp: updateImage_def Let_def split: option.splits
           intro!: in_sync_notifyListeners in_sync_syncContent)

lemma removeComponent_sync:
  assumes "editor s = Some ed" and "contentInput s = Some inp" and "fst (removeComponent i s)"
  shows "in_sync ed inp (snd (removeComponent i s))"
  using assms
  by (auto simp: removeComponent_def Let_def split: option.splits
           intro!: in_sync_syncContent)

lemma insertImage_sync:
  assumes "editor s = Some ed" and "contentInput s = Some inp"
  shows "in_sync ed inp (snd (insertImage env src alt options selection s))"
  using assms
  by (auto simp: insertImage_def generateId_def Let_def split: option.splits
           intro!: in_sync_syncContent)

lemma duplicateComponent_sync:
  assumes "editor s = Some ed" and "contentInput s = Some inp"
    and "fst (duplicateComponent env i s) \<noteq> None"
  shows "in_sync ed inp (snd (duplicateComponent env i s))"
  using assms
  by (auto simp: duplicateComponent_def generateId_def Let_def split: option.splits
           intro!: in_sync_syncContent)

subsection \<open>Content synchronisation\<close>

text \<open>
  Claim C1. After every successful mutating operation (\<^verbatim>\<open>updateComponent\<close>,
  \<^verbatim>\<open>updateImage\<close>, \<^verbatim>\<open>insertImage\<close>, \<^verbatim>\<open>removeComponent\<close>,
  \<^verbatim>\<open>duplicateComponent\<close>) of a manager that is bound to an editor and an output
  field, the value of the output field is the serialised markup of the editor, character
  for character.
\<close>

theorem sync_after_mutation:
  assumes "editor s = Some ed" and "contentInput s = Some inp"
  shows "(fst (updateComponent i u s) \<longrightarrow> in_sync ed inp (snd (updateComponent i u s))) \<and>
         (fst (updateImage i p s) \<longrightarrow> in_sync ed inp (snd (updateImage i p s))) \<and>
         (fst (insertImage env src alt options selection s) \<noteq> [] \<longrightarrow>
            in_sync ed inp (snd (insertImage env src alt options selection s))) \<and>
         (fst (removeComponent i s) \<longrightarrow> in_sync ed inp (snd (removeComponent i s))) \<and>
         (fst (duplicateComponent env i s) \<noteq> None \<longrightarrow>
            in_sync ed inp (snd (duplicateComponent env i s)))"
proof (intro conjI impI)
  show "fst (updateComponent i u s) \<Longrightarrow> in_sync ed inp (snd (updateComponent i u s))"
    by (rule updateComponent_sync [OF assms])
  show "fst (updateImage i p s) \<Longrightarrow> in_sync ed inp (snd (updateImage i p s))"
    by (rule updateImage_sync [OF assms])
  show "in_sync ed inp (snd (insertImage env src alt options selection s))"
    by (rule insertImage_sync [OF assms])
  show "fst (removeComponent i s) \<Longrightarrow> in_sync ed inp (snd (removeComponent i s))"
    by (rule removeComponent_sync [OF assms])
  show "fst (duplicateComponent env i s) \<noteq> None \<Longrightarrow>
        in_sync ed inp (snd (duplicateComponent env i s))"
    by (rule duplicateComponent_sync [OF assms])
qed

text \<open>When the operations succeed.\<close>

lemma updateComponent_succeeds:
  "fst (updateComponent i u s) =
     (\<exists>c. map_of (components s) i = Some c \<and> cd_element c \<noteq> None)"
  by (auto simp: updateComponent_def Let_def split: option.splits)

lemma removeComponent_succeeds:
  "fst (removeComponent i s) =
     (\<exists>c. map_of (components s) i = Some c \<and> cd_element c \<noteq> None)"
  by (auto simp: removeComponent_def Let_def split: option.splits)

lemma updateImage_succeeds:
  "fst (updateImage i p s) =
     (\<exists>c. map_of (components s) i = Some c \<and> image_target c s \<noteq> None)"
  by (auto simp: updateImage_def Let_def split: option.splits)

lemma duplicateComponent_succeeds:
  "(fst (duplicateComponent env i s) \<noteq> None) =
     (\<exists>c el. map_of (components s) i = Some c \<and> cd_element c = Some el \<and>
        find_node el (document s) \<noteq> None)"
  by (auto simp: duplicateComponent_def generateId_def Let_def split: option.splits)

lemma insertImage_succeeds:
  "editor s \<noteq> None \<Longrightarrow> fst (insertImage env src alt options selection s) \<noteq> []"
  by (auto simp: insertImage_def generateId_def make_id_def Let_def split: option.splits)

lemma demo_find_figure: "find_node 1 (document demo) \<noteq> None"
  by (simp add: demo_def find_node_def forest_elements_def figure_node_def image_node_def new_element_def)

text \<open>All five operations succeed on the sample manager, and leave it in sync.\<close>

theorem sync_after_mutation_witness:
  "editor demo = Some 0 \<and> contentInput demo = Some 100 \<and>
   fst (updateComponent ''c1'' [(''caption'', Str ''B'')] demo) \<and>
   in_sync 0 100 (snd (updateComponent ''c1'' [(''caption'', Str ''B'')] demo)) \<and>
   fst (updateImage ''c2'' (only_layout Center) demo) \<and>
   in_sync 0 100 (snd (updateImage ''c2'' (only_layout Center) demo)) \<and>
   fst (insertImage (\<lambda>k. (1000, ''abc'')) ''b.png'' ''cat'' (only_layout Center) None demo) \<noteq> [] \<and>
   in_sync 0 100
     (snd (insertImage (\<lambda>k. (1000, ''abc'')) ''b.png'' ''cat'' (only_layout Center) None demo)) \<and>
   fst (removeComponent ''c1'' demo) \<and> in_sync 0 100 (snd (removeComponent ''c1'' demo)) \<and>
   fst (duplicateComponent (\<lambda>k. (1000, ''abc'')) ''c1'' demo) \<noteq> None \<and>
   in_sync 0 100 (snd (duplicateComponent (\<lambda>k. (1000, ''abc'')) ''c1'' demo))"
proof -
  have e: "editor demo = Some 0" and c: "contentInput demo = Some 100"
    by (simp_all add: demo_def)
  have m1: "map_of (components demo) ''c1'' = Some figure_data"
    and m2: "map_of (components demo) ''c2'' = Some image_data"
    by (simp_all add: demo_def)
  have u: "fst (updateComponent ''c1'' [(''caption'', Str ''B'')] demo)"
    by (simp add: updateComponent_succeeds m1 figure_data_def)
  have r: "fst (removeComponent ''c1'' demo)"
    by (simp add: removeComponent_succeeds m1 figure_data_def)
  have i: "fst (updateImage ''c2'' (only_layout Center) demo)"
    by (simp add: updateImage_succeeds m2 image_data_def image_target_def)
  have d: "fst (duplicateComponent (\<lambda>k. (1000, ''abc'')) ''c1'' demo) \<noteq> None"
    unfolding duplicateComponent_succeeds using demo_find_figure m1
    by (intro exI [of _ figure_data] exI [of _ 1]) (simp add: figure_data_def)
  have n: "fst (insertImage (\<lambda>k. (1000, ''abc'')) ''b.png'' ''cat'' (only_layout Center) None demo) \<noteq> []"
    by (rule insertImage_succeeds) (simp add: e)
  show ?thesis
    using sync_after_mutation [OF e c, where i = "''c1''" and u = "[(''caption'', Str ''B'')]"
        and env = "\<lambda>k. (1000, ''abc'')" and src = "''b.png''" and alt = "''cat''"
        and options = "only_layout Center" and selection = None]
      sync_after_mutation [OF e c, where i = "''c2''" and p = "only_layout Center"]
      e c u r i d n
    by simp
qed

subsection \<open>Failure on an unknown identifier\<close>

text \<open>
  Claim C3. For every identifier that is absent from the Registry and every partial
  update, \<^verbatim>\<open>updateComponent\<close> and \<^verbatim>\<open>updateImage\<close> return the failure indicator
  \<open>False\<close> (no branch of either raises) and leave the whole state as it was: the editor
  content, the stored records and the value of the output field. A failed update is atomic.
\<close>

theorem failed_update_is_atomic:
  assumes "map_of (components s) i = None"
  shows "updateComponent i u s = (False, s) \<and> updateImage i p s = (False, s)"
  using assms by (simp add: updateComponent_def updateImage_def)

theorem failed_update_is_atomic_witness:
  "map_of (components demo) ''nonexistent-id'' = None \<and>
   updateComponent ''nonexistent-id'' [(''caption'', Str ''B'')] demo = (False, demo) \<and>
   updateImage ''nonexistent-id'' (only_layout Center) demo = (False, demo)"
proof -
  have h: "map_of (components demo) ''nonexistent-id'' = None"
    by (simp add: demo_def)
  show ?thesis
    using h failed_update_is_atomic [OF h, of "[(''caption'', Str ''B'')]" "only_layout Center"]
    by simp
qed

subsection \<open>Insertion before initialisation\<close>

text \<open>
  Claim C10. If \<^verbatim>\<open>init\<close> has never been called, so that no editor is bound,
  \<^verbatim>\<open>insertImage\<close> returns the empty string, not a component identifier, and changes
  nothing: the Registry stays as it was (empty when it was empty), no node is created and
  no output field is written.
\<close>

theorem insertImage_before_init:
  assumes "editor s = None"
  shows "insertImage env src alt options selection s = ([], s)"
  using assms by (simp add: insertImage_def)

theorem insertImage_before_init_witness:
  "editor blank = None \<and> components blank = [] \<and>
   insertImage (\<lambda>k. (1000, ''abc'')) ''https://x/img.png'' ''cat'' (only_layout Center) None blank
     = ([], blank)"
proof -
  have h: "editor blank = None"
    by (simp add: blank_def)
  show ?thesis
    using h insertImage_before_init [OF h, of "\<lambda>k. (1000, ''abc'')" "''https://x/img.png''"
        "''cat''" "only_layout Center" None]
    by (simp add: blank_def)
qed

subsection \<open>Writing attributes\<close>

lemma update_attrs_compose:
  assumes "\<And>a. node_id (h a) = node_id a"
  shows "update_attrs n g (update_attrs n h t) = update_attrs n (g \<circ> h) t"
  by (induction t) (simp_all add: assms)

lemma forest_update_attrs_compose:
  assumes "\<And>a. node_id (h a) = node_id a"
  shows "map (update_attrs n g) (map (update_attrs n h) f) = map (update_attrs n (g \<circ> h)) f"
  by (simp add: update_attrs_compose [OF assms])

lemma elements_update_attrs:
  "elements (update_attrs n g t) =
     map (\<lambda>e. (if node_id (fst e) = n then g (fst e) else fst e, map (update_attrs n g) (snd e)))
       (elements t)"
proof (induction t)
  case (Element a ks)
  have "concat (map (elements \<circ> update_attrs n g) ks) =
        concat (map (\<lambda>k. map (\<lambda>e. (if node_id (fst e) = n then g (fst e) else fst e,
                  map (update_attrs n g) (snd e))) (elements k)) ks)"
    using Element.IH by (intro arg_cong [where f = concat] map_cong) simp_all
  then show ?case
    by (simp add: map_concat comp_def)
qed simp

lemma forest_elements_update_attrs:
  "forest_elements (map (update_attrs n g) f) =
     map (\<lambda>e. (if node_id (fst e) = n then g (fst e) else fst e, map (update_attrs n g) (snd e)))
       (forest_elements f)"
  by (simp add: forest_elements_def elements_update_attrs map_concat comp_def)

lemma find_map_fst:
  assumes "\<And>e. P (G e) = P e"
  shows "find P (map G xs) = map_option G (find P xs)"
  by (induction xs) (simp_all add: assms)

lemma attrs_of_update_attrs:
  assumes "\<And>a. node_id (g a) = node_id a"
  shows "attrs_of m (map (update_attrs n g) f) =
         map_option (\<lambda>a. if node_id a = n then g a else a) (attrs_of m f)"
  unfolding attrs_of_def find_node_def forest_elements_update_attrs
  by (subst find_map_fst) (simp_all add: assms option.map_comp comp_def)

subsection \<open>The layout patch\<close>

lemma layout_classes_eq:
  "layout_classes l cl =
     filter (\<lambda>c. c \<notin> set [''float-left'', ''float-right'', ''center'', ''inline'']) cl @
     (if l = Inline \<or> l = FigureLayout then [] else [layout_name l])"
  by (cases l) (simp_all add: layout_classes_def classList_remove_def classList_add_def)

lemma layout_classes_absorb:
  "layout_classes l2 (layout_classes l1 cl) = layout_classes l2 cl"
proof -
  have "layout_name l1 \<in> set [''float-left'', ''float-right'', ''center'', ''inline'']"
    if "l1 \<noteq> Inline" "l1 \<noteq> FigureLayout"
    using that by (cases l1) simp_all
  then show ?thesis
    unfolding layout_classes_eq [of l2] by (simp add: layout_classes_eq [of l1])
qed

lemma style_set_present:
  "v \<noteq> [] \<Longrightarrow> map_of st p = Some v \<Longrightarrow> style_set p v st = st"
  by (simp add: style_set_def AList.update_triv)

lemma style_set_absent:
  "map_of st p = None \<Longrightarrow> style_set p [] st = st"
  by (simp add: style_set_def map_of_eq_None_iff)

lemma style_set_no_change:
  "map_of st p = (if v = [] then None else Some v) \<Longrightarrow> style_set p v st = st"
  by (simp add: style_set_present style_set_absent split: if_splits)

lemma map_of_style_set:
  "map_of (style_set p v st) = (if v = [] then (map_of st)(p := None) else (map_of st)(p \<mapsto> v))"
  by (simp add: style_set_def AList.update_conv' AList.delete_conv')

lemma fold_style_set_no_change:
  "(\<And>p v. (p, v) \<in> set b \<Longrightarrow> map_of st p = (if v = [] then None else Some v)) \<Longrightarrow>
   fold (\<lambda>(p, v). style_set p v) b st = st"
proof (induction b)
  case (Cons x b)
  obtain p v where x: "x = (p, v)" by (cases x)
  have "style_set p v st = st"
    by (rule style_set_no_change) (simp add: Cons.prems x)
  with Cons show ?case by (simp add: x)
qed simp

lemma map_of_fold_style_set_other:
  "p \<notin> fst ` set b \<Longrightarrow> map_of (fold (\<lambda>(p, v). style_set p v) b st) p = map_of st p"
proof (induction b arbitrary: st)
  case (Cons x b)
  then show ?case by (cases x) (auto simp: map_of_style_set)
qed simp

lemma map_of_fold_style_set:
  "distinct (map fst b) \<Longrightarrow> (p, v) \<in> set b \<Longrightarrow>
   map_of (fold (\<lambda>(p, v). style_set p v) b st) p = (if v = [] then None else Some v)"
proof (induction b arbitrary: st)
  case (Cons x b)
  obtain q w where x: "x = (q, w)" by (cases x)
  show ?case
  proof (cases "(p, v) \<in> set b")
    case True
    with Cons show ?thesis by simp
  next
    case False
    with Cons.prems x have "q = p" "w = v" and "p \<notin> fst ` set b" by auto
    then show ?thesis
      by (simp add: x map_of_fold_style_set_other map_of_style_set)
  qed
qed simp

lemma fold_style_set_idem:
  assumes "distinct (map fst b)"
  shows "fold (\<lambda>(p, v). style_set p v) b (fold (\<lambda>(p, v). style_set p v) b st) =
         fold (\<lambda>(p, v). style_set p v) b st"
  by (rule fold_style_set_no_change) (rule map_of_fold_style_set [OF assms])

lemma layout_style_fold:
  "layout_style l st = fold (\<lambda>(p, v). style_set p v) (layout_decls l) st"
  by (cases l) (simp_all add: style_set_margin_def)

lemma distinct_layout_decls: "distinct (map fst (layout_decls l))"
  by (cases l) simp_all

lemma layout_style_idem: "layout_style l (layout_style l st) = layout_style l st"
  unfolding layout_style_fold by (rule fold_style_set_idem [OF distinct_layout_decls])

lemma map_of_layout_style_width:
  "map_of (layout_style l st) ''width'' = map_of st ''width''"
  unfolding layout_style_fold
  by (rule map_of_fold_style_set_other) (cases l, simp_all)

lemma layout_style_float_value:
  "style_get ''float'' (layout_style l st) =
     (case l of FloatLeft \<Rightarrow> ''left'' | FloatRight \<Rightarrow> ''right'' | _ \<Rightarrow> [])"
proof -
  have "(''float'', case l of FloatLeft \<Rightarrow> ''left'' | FloatRight \<Rightarrow> ''right'' | _ \<Rightarrow> [])
          \<in> set (layout_decls l)"
    by (cases l) simp_all
  from map_of_fold_style_set [OF distinct_layout_decls this] show ?thesis
    unfolding layout_style_fold style_get_def by (cases l) simp_all
qed

lemma layout_style_float:
  "style_get ''float'' (layout_style l2 (layout_style l1 st)) = style_get ''float'' (layout_style l2 st)"
  by (simp only: layout_style_float_value)

lemma patch_attrs_node_id [simp]: "node_id (patch_attrs p a) = node_id a"
  by (simp add: patch_attrs_def split: option.splits)

lemma update_attrs_id: "update_attrs n id t = t"
  by (induction t) (simp_all add: map_idI)

lemma patch_image_attrs:
  "patch_image n p f = map (update_attrs n (patch_attrs p)) f"
proof -
  have i: "map (update_attrs n (\<lambda>x. x)) f = f" for f
    using update_attrs_id [of n] by (simp add: id_def map_idI)
  show ?thesis
    by (cases "ip_src p"; cases "ip_alt p"; cases "ip_width p"; cases "ip_layout p")
       (simp_all add: patch_image_def patch_attrs_def set_src_def set_alt_def set_style_def
          set_class_def i forest_update_attrs_compose comp_def id_def del: map_map
          cong del: if_weak_cong)
qed


lemma layout_style_width_swap:
  "style_set ''width'' v (layout_style l (style_set ''width'' v st)) =
   layout_style l (style_set ''width'' v st)"
  by (rule style_set_no_change) (simp add: map_of_layout_style_width map_of_style_set)

lemma patch_attrs_fields:
  "localName (patch_attrs p a) = localName a"
  "componentId (patch_attrs p a) = componentId a"
  "src_attr (patch_attrs p a) =
     (case ip_src p of None \<Rightarrow> src_attr a
      | Some v \<Rightarrow> if localName a = ''img'' then Some v else src_attr a)"
  "alt_attr (patch_attrs p a) =
     (case ip_alt p of None \<Rightarrow> alt_attr a
      | Some v \<Rightarrow> if localName a = ''img'' then Some v else alt_attr a)"
  "classList (patch_attrs p a) =
     (case ip_layout p of None \<Rightarrow> classList a | Some l \<Rightarrow> layout_classes l (classList a))"
  "inline_style (patch_attrs p a) =
     (case ip_layout p of None \<Rightarrow> id | Some l \<Rightarrow> layout_style l)
       ((case ip_width p of None \<Rightarrow> id | Some v \<Rightarrow> style_set ''width'' v) (inline_style a))"
  "attrs.more (patch_attrs p a) = attrs.more a"
  by (simp_all add: patch_attrs_def split: option.splits)

lemma style_patch_idem:
  "(case ip_layout p of None \<Rightarrow> id | Some l \<Rightarrow> layout_style l)
     ((case ip_width p of None \<Rightarrow> id | Some v \<Rightarrow> style_set ''width'' v)
       ((case ip_layout p of None \<Rightarrow> id | Some l \<Rightarrow> layout_style l)
         ((case ip_width p of None \<Rightarrow> id | Some v \<Rightarrow> style_set ''width'' v) st))) =
   (case ip_layout p of None \<Rightarrow> id | Some l \<Rightarrow> layout_style l)
     ((case ip_width p of None \<Rightarrow> id | Some v \<Rightarrow> style_set ''width'' v) st)"
  by (cases "ip_layout p"; cases "ip_width p")
     (simp_all add: layout_style_idem layout_style_width_swap style_set_no_change
        map_of_style_set)

lemma patch_attrs_idem: "patch_attrs p (patch_attrs p a) = patch_attrs p a"
proof (rule attrs.equality)
  show "inline_style (patch_attrs p (patch_attrs p a)) = inline_style (patch_attrs p a)"
    by (simp only: patch_attrs_fields style_patch_idem)
  show "classList (patch_attrs p (patch_attrs p a)) = classList (patch_attrs p a)"
    by (simp add: patch_attrs_fields layout_classes_absorb split: option.splits)
qed (simp_all add: patch_attrs_fields split: option.splits)

lemma patch_image_idem: "patch_image n p (patch_image n p f) = patch_image n p f"
proof -
  have "patch_attrs p \<circ> patch_attrs p = patch_attrs p"
    by (rule ext) (simp add: patch_attrs_idem)
  then show ?thesis
    by (simp add: patch_image_attrs forest_update_attrs_compose del: map_map)
qed

subsection \<open>The spread of property bags\<close>

lemma fold_update_no_change:
  "(\<And>k v. (k, v) \<in> set b \<Longrightarrow> map_of a k = Some v) \<Longrightarrow>
   fold (\<lambda>(k, v). AList.update k v) b a = a"
  by (induction b) (auto simp: AList.update_triv)

lemma map_of_fold_update:
  "distinct (map fst b) \<Longrightarrow> (k, v) \<in> set b \<Longrightarrow>
   map_of (fold (\<lambda>(k, v). AList.update k v) b a) k = Some v"
proof (induction b arbitrary: a)
  case (Cons x b)
  obtain k' v' where x: "x = (k', v')" by (cases x)
  show ?case
  proof (cases "(k, v) \<in> set b")
    case True
    with Cons show ?thesis by simp
  next
    case False
    with Cons.prems x have kv: "k' = k" "v' = v" and nk: "k \<notin> fst ` set b" by auto
    have keep: "map_of (fold (\<lambda>(k, v). AList.update k v) b a') k = map_of a' k" for a'
      using nk
    proof (induction b arbitrary: a')
      case (Cons y b)
      then show ?case by (cases y) (auto simp: AList.update_conv')
    qed simp
    show ?thesis
      by (simp add: x kv keep AList.update_conv')
  qed
qed simp

lemma spread_idem: "distinct (map fst b) \<Longrightarrow> spread (spread a b) b = spread a b"
  unfolding spread_def by (rule fold_update_no_change) (rule map_of_fold_update)

lemma distinct_image_entries: "distinct (map fst (image_entries p))"
  by (simp add: image_entries_def split: option.splits)

subsection \<open>Patching a tracked image\<close>

lemma updateImage_image:
  assumes "map_of (components s) i = Some c" and "cd_type c = Image" and "cd_element c = Some n"
  shows "updateImage i p s =
           (True,
            notifyListeners i (c\<lparr>cd_props := spread (cd_props c) (image_entries p)\<rparr>)
              (syncContent
                (set_component i (c\<lparr>cd_props := spread (cd_props c) (image_entries p)\<rparr>)
                  (write_document (patch_image n p) s))))"
  using assms by (simp add: updateImage_def image_target_def Let_def)

lemma input_value_syncContent_twice:
  assumes "document t = document s" and "editor t = editor s" and "contentInput t = contentInput s"
    and "input_value t = input_value (syncContent s)"
  shows "input_value (syncContent t) = input_value (syncContent s)"
  using assms
  by (auto simp: syncContent_def editor_markup_def split: option.splits)

lemma apply_layout_image:
  assumes "map_of (components s) i = Some c" and "cd_type c = Image" and "cd_element c = Some n"
  shows "document (apply_layout i l s) = map (update_attrs n (patch_attrs (only_layout l))) (document s)"
    and "\<exists>c'. map_of (components (apply_layout i l s)) i = Some c' \<and> cd_type c' = Image \<and>
           cd_element c' = Some n"
  using assms
  by (simp_all add: apply_layout_def updateImage_image [OF assms] patch_image_attrs
        AList.update_conv')

lemma find_SomeD: "find P xs = Some x \<Longrightarrow> P x \<and> x \<in> set xs"
  by (induction xs) (auto split: if_splits)

lemma attrs_of_node_id: "attrs_of n f = Some a \<Longrightarrow> node_id a = n"
  by (auto simp: attrs_of_def find_node_def dest: find_SomeD)

lemma apply_layout_attrs:
  assumes "map_of (components s) i = Some c" and "cd_type c = Image" and "cd_element c = Some n"
    and "attrs_of n (document s) = Some a"
  shows "attrs_of n (document (apply_layout i l s)) = Some (patch_attrs (only_layout l) a)"
  using assms(4) attrs_of_node_id [OF assms(4)]
  by (simp add: apply_layout_image(1) [OF assms(1-3)] attrs_of_update_attrs)

lemma patch_only_layout:
  "classList (patch_attrs (only_layout l) a) = layout_classes l (classList a)"
  "inline_style (patch_attrs (only_layout l) a) = layout_style l (inline_style a)"
  by (simp_all add: patch_attrs_fields only_layout_def)

text \<open>
  What the last layout does determine on the element that \<^verbatim>\<open>updateImage\<close> patches (for
  a record of type image that is the element the record stores: the image itself for a
  record made by \<^verbatim>\<open>registerImage\<close>, the wrapper for one made by \<^verbatim>\<open>insertImage\<close>): its
  class list and its \<^verbatim>\<open>float\<close> declaration.
\<close>

lemma layout_change_resets_classes_and_float:
  assumes "map_of (components s) i = Some c" and "cd_type c = Image" and "cd_element c = Some n"
    and "attrs_of n (document s) = Some a"
  shows "\<exists>a12 a2.
           attrs_of n (document (apply_layout i l2 (apply_layout i l1 s))) = Some a12 \<and>
           attrs_of n (document (apply_layout i l2 s)) = Some a2 \<and>
           classList a12 = classList a2 \<and>
           classList a2 = layout_classes l2 (classList a) \<and>
           style_get ''float'' (inline_style a12) = style_get ''float'' (inline_style a2) \<and>
           style_get ''float'' (inline_style a2) =
             (case l2 of FloatLeft \<Rightarrow> ''left'' | FloatRight \<Rightarrow> ''right'' | _ \<Rightarrow> [])"
proof -
  let ?a1 = "patch_attrs (only_layout l1) a"
  have a1: "attrs_of n (document (apply_layout i l1 s)) = Some ?a1"
    by (rule apply_layout_attrs [OF assms])
  obtain c1 where c1: "map_of (components (apply_layout i l1 s)) i = Some c1"
      "cd_type c1 = Image" "cd_element c1 = Some n"
    using apply_layout_image(2) [OF assms(1-3)] by blast
  have a12: "attrs_of n (document (apply_layout i l2 (apply_layout i l1 s))) =
             Some (patch_attrs (only_layout l2) ?a1)"
    by (rule apply_layout_attrs [OF c1 a1])
  have a2: "attrs_of n (document (apply_layout i l2 s)) = Some (patch_attrs (only_layout l2) a)"
    by (rule apply_layout_attrs [OF assms])
  show ?thesis
    unfolding a12 a2
    by (simp add: patch_only_layout layout_classes_absorb layout_style_float_value)
qed

lemma demo_image: "map_of (components demo) ''c2'' = Some image_data"
  "cd_type image_data = Image" "cd_element image_data = Some 4"
  by (simp_all add: demo_def image_data_def)

lemma demo_image_attrs:
  "attrs_of 4 (document demo) =
     Some ((new_element 4 ''img'')
             \<lparr>classList := [''blog-image''], componentId := Some ''c2'',
              src_attr := Some ''b.png''\<rparr>)"
  by (simp add: attrs_of_def find_node_def forest_elements_def demo_def figure_node_def
        image_node_def new_element_def)

lemma layout_change_resets_classes_and_float_on_demo:
  "map_of (components demo) ''c2'' = Some image_data \<and> cd_type image_data = Image \<and>
   cd_element image_data = Some 4 \<and>
   (\<exists>a12 a2.
      attrs_of 4 (document (apply_layout ''c2'' FloatLeft (apply_layout ''c2'' Center demo))) =
        Some a12 \<and>
      attrs_of 4 (document (apply_layout ''c2'' FloatLeft demo)) = Some a2 \<and>
      classList a12 = [''blog-image'', ''float-left''] \<and>
      classList a2 = [''blog-image'', ''float-left''] \<and>
      style_get ''float'' (inline_style a12) = ''left'' \<and>
      style_get ''float'' (inline_style a2) = ''left'')"
proof -
  have "layout_classes FloatLeft [''blog-image''] = [''blog-image'', ''float-left'']"
    by (simp add: layout_classes_eq)
  then show ?thesis
    using layout_change_resets_classes_and_float [OF demo_image demo_image_attrs,
        of FloatLeft Center] demo_image
    by (simp add: new_element_def) metis
qed

text \<open>
  Claim C4. For every tracked image component and every pair of layout values \<open>l1\<close>, \<open>l2\<close>,
  applying \<^verbatim>\<open>updateImage\<close> with layout \<open>l1\<close> and then with layout \<open>l2\<close> should leave
  the layout classes and the float, display and margin declarations of the image element
  identical to applying \<open>l2\<close> alone, the patch clearing the earlier ones first. The code
  departs from that: the layout classes are removed and \<^verbatim>\<open>float\<close> is assigned in every
  branch, but \<^verbatim>\<open>display\<close> is cleared only in the default branch and no branch clears a
  margin. For the tracked image \<^verbatim>\<open>c2\<close> of the sample manager (an \<^verbatim>\<open>img\<close> element
  registered as itself), \<^verbatim>\<open>center\<close> and then \<^verbatim>\<open>float-left\<close> leaves
  \<^verbatim>\<open>display: block\<close>, \<^verbatim>\<open>margin-top: 1rem\<close> and \<^verbatim>\<open>margin-left: auto\<close> on the image,
  which \<^verbatim>\<open>float-left\<close> alone never sets: the two layout states differ.
\<close>

theorem layout_change_keeps_display_and_margin:
  "map_option layout_state
     (attrs_of 4 (document (apply_layout ''c2'' FloatLeft (apply_layout ''c2'' Center demo)))) \<noteq>
   map_option layout_state (attrs_of 4 (document (apply_layout ''c2'' FloatLeft demo))) \<and>
   map_option layout_state
     (attrs_of 4 (document (apply_layout ''c2'' FloatLeft (apply_layout ''c2'' Center demo)))) =
     Some ([''float-left''],
           [(''display'', ''block''), (''margin-top'', ''1rem''), (''margin-right'', ''1rem''),
            (''margin-bottom'', ''0.5rem''), (''margin-left'', ''auto''), (''float'', ''left'')]) \<and>
   map_option layout_state (attrs_of 4 (document (apply_layout ''c2'' FloatLeft demo))) =
     Some ([''float-left''],
           [(''float'', ''left''), (''margin-right'', ''1rem''), (''margin-bottom'', ''0.5rem'')])"
proof -
  obtain c1 where c1: "map_of (components (apply_layout ''c2'' Center demo)) ''c2'' = Some c1"
      "cd_type c1 = Image" "cd_element c1 = Some 4"
    using apply_layout_image(2) [OF demo_image] by blast
  show ?thesis
    by (simp add: apply_layout_attrs [OF c1 apply_layout_attrs [OF demo_image demo_image_attrs]]
          apply_layout_attrs [OF demo_image demo_image_attrs]
          patch_attrs_def only_layout_def layout_state_def layout_classes_eq new_element_def
          style_set_margin_def style_set_def)
qed

text \<open>
  Claim C5. For every tracked image component and every layout value, calling
  \<^verbatim>\<open>updateImage(id, {layout})\<close> twice in a row succeeds both times and leaves the document
  after the second call identical to the document after the first (so also the classes and
  the inline style of the image element), with the same records and the same output value:
  the layout patch is idempotent and accumulates nothing.
\<close>

theorem layout_patch_idempotent:
  assumes "map_of (components s) i = Some c" and "cd_type c = Image" and "cd_element c = Some n"
  shows "fst (updateImage i (only_layout l) s) \<and>
         fst (updateImage i (only_layout l) (apply_layout i l s)) \<and>
         document (apply_layout i l (apply_layout i l s)) = document (apply_layout i l s) \<and>
         components (apply_layout i l (apply_layout i l s)) = components (apply_layout i l s) \<and>
         input_value (apply_layout i l (apply_layout i l s)) = input_value (apply_layout i l s)"
proof -
  let ?p = "only_layout l"
  let ?c = "c\<lparr>cd_props := spread (cd_props c) (image_entries ?p)\<rparr>"
  let ?t = "set_component i ?c (write_document (patch_image n ?p) s)"
  define s1 where "s1 = apply_layout i l s"
  have one: "updateImage i ?p s = (True, notifyListeners i ?c (syncContent ?t))"
    by (rule updateImage_image [OF assms])
  have s1: "s1 = notifyListeners i ?c (syncContent ?t)"
    by (simp add: s1_def apply_layout_def one)
  have ds1: "document s1 = patch_image n ?p (document s)"
    and cs1: "components s1 = AList.update i ?c (components s)"
    and vs1: "input_value s1 = input_value (syncContent ?t)"
    and es1: "editor s1 = editor s" "contentInput s1 = contentInput s"
    by (simp_all add: s1)
  have m1: "map_of (components s1) i = Some ?c"
    by (simp add: cs1 AList.update_conv')
  have t1: "cd_type ?c = Image" and e1: "cd_element ?c = Some n"
    using assms by simp_all
  have cc: "?c\<lparr>cd_props := spread (cd_props ?c) (image_entries ?p)\<rparr> = ?c"
    by (simp add: spread_idem distinct_image_entries)
  let ?u = "set_component i ?c (write_document (patch_image n ?p) s1)"
  have two: "updateImage i ?p s1 = (True, notifyListeners i ?c (syncContent ?u))"
    using updateImage_image [OF m1 t1 e1, of ?p] by (simp only: cc)
  have s2: "apply_layout i l s1 = notifyListeners i ?c (syncContent ?u)"
    by (simp add: apply_layout_def two)
  have d: "document (apply_layout i l s1) = document s1"
    by (simp add: s2 ds1 patch_image_idem)
  have c: "components (apply_layout i l s1) = components s1"
    by (simp add: s2 cs1)
  have "input_value (syncContent ?u) = input_value (syncContent ?t)"
    by (rule input_value_syncContent_twice) (simp_all add: ds1 es1 vs1 patch_image_idem)
  then have v: "input_value (apply_layout i l s1) = input_value s1"
    by (simp add: s2 vs1)
  have r1: "fst (updateImage i ?p s)"
    by (simp add: one)
  have r2: "fst (updateImage i ?p s1)"
    by (simp add: two)
  show ?thesis
    using r1 r2 d c v unfolding s1_def by (intro conjI)
qed

theorem layout_patch_idempotent_witness:
  "map_of (components demo) ''c2'' = Some image_data \<and> cd_type image_data = Image \<and>
   cd_element image_data = Some 4 \<and>
   fst (updateImage ''c2'' (only_layout Center) demo) \<and>
   fst (updateImage ''c2'' (only_layout Center) (apply_layout ''c2'' Center demo)) \<and>
   document (apply_layout ''c2'' Center (apply_layout ''c2'' Center demo)) =
     document (apply_layout ''c2'' Center demo) \<and>
   components (apply_layout ''c2'' Center (apply_layout ''c2'' Center demo)) =
     components (apply_layout ''c2'' Center demo) \<and>
   input_value (apply_layout ''c2'' Center (apply_layout ''c2'' Center demo)) =
     input_value (apply_layout ''c2'' Center demo)"
  using layout_patch_idempotent [OF demo_image, of Center] demo_image by simp

subsection \<open>Change listeners\<close>

lemma updateComponent_notified:
  assumes "fst (updateComponent i u s)"
  shows "\<exists>c. map_of (components (snd (updateComponent i u s))) i = Some c \<and>
           notified (snd (updateComponent i u s)) =
             notified s @ map (\<lambda>l. (l, i, c)) (changeListeners s)"
  using assms
  by (auto simp: updateComponent_def Let_def notifyListeners_def syncContent_def
        AList.update_conv' split: option.splits)

lemma updateImage_notified:
  assumes "fst (updateImage i p s)"
  shows "\<exists>c. map_of (components (snd (updateImage i p s))) i = Some c \<and>
           notified (snd (updateImage i p s)) =
             notified s @ map (\<lambda>l. (l, i, c)) (changeListeners s)"
  using assms
  by (auto simp: updateImage_def Let_def notifyListeners_def syncContent_def
        AList.update_conv' split: option.splits)

lemma insertImage_notified:
  "notified (snd (insertImage env src alt options selection s)) = notified s"
  by (simp add: insertImage_def generateId_def Let_def split: option.splits)

lemma removeComponent_notified: "notified (snd (removeComponent i s)) = notified s"
  by (simp add: removeComponent_def Let_def split: option.splits)

lemma duplicateComponent_notified: "notified (snd (duplicateComponent env i s)) = notified s"
  by (simp add: duplicateComponent_def generateId_def Let_def split: option.splits)

lemma onChange_registers: "l \<in> set (changeListeners (onChange l s))"
  by (simp add: onChange_def)

lemma unsubscribe_removes: "l \<notin> set (changeListeners (unsubscribe l s))"
  by (simp add: unsubscribe_def)

text \<open>
  Claim C6, as amended. Every registered \<^verbatim>\<open>onChange\<close> listener is called with the
  component identifier and the updated record, once and in registration order, after every
  successful \<^verbatim>\<open>updateComponent\<close> and \<^verbatim>\<open>updateImage\<close>. \<^verbatim>\<open>insertImage\<close>,
  \<^verbatim>\<open>removeComponent\<close> and \<^verbatim>\<open>duplicateComponent\<close> synchronise the content but call
  no listener. \<^verbatim>\<open>onChange\<close> registers the listener, and the function it returns removes
  the listener again.
\<close>

theorem listeners_notified_after_update:
  "(fst (updateComponent i u s) \<longrightarrow>
      (\<exists>c. map_of (components (snd (updateComponent i u s))) i = Some c \<and>
         notified (snd (updateComponent i u s)) =
           notified s @ map (\<lambda>l. (l, i, c)) (changeListeners s))) \<and>
   (fst (updateImage i p s) \<longrightarrow>
      (\<exists>c. map_of (components (snd (updateImage i p s))) i = Some c \<and>
         notified (snd (updateImage i p s)) =
           notified s @ map (\<lambda>l. (l, i, c)) (changeListeners s))) \<and>
   notified (snd (insertImage env src alt options selection s)) = notified s \<and>
   notified (snd (removeComponent i s)) = notified s \<and>
   notified (snd (duplicateComponent env i s)) = notified s \<and>
   l \<in> set (changeListeners (onChange l s)) \<and>
   l \<notin> set (changeListeners (unsubscribe l (onChange l s)))"
  using updateComponent_notified [of i u s] updateImage_notified [of i p s]
  by (simp add: insertImage_notified removeComponent_notified duplicateComponent_notified
        onChange_registers unsubscribe_removes)

lemma demo_figure: "map_of (components (onChange l demo)) ''c1'' = Some figure_data"
  "cd_element figure_data = Some 1" "changeListeners (onChange l demo) = [l]"
  "notified (onChange l demo) = []" "editor (onChange l demo) = Some 0"
  by (simp_all add: demo_def figure_data_def onChange_def)

theorem listeners_notified_after_update_witness:
  "fst (updateComponent ''c1'' [(''caption'', Str ''B'')] (onChange 7 demo)) \<and>
   (\<exists>c. map_of (components (snd (updateComponent ''c1'' [(''caption'', Str ''B'')]
                                  (onChange 7 demo)))) ''c1'' = Some c \<and>
        notified (snd (updateComponent ''c1'' [(''caption'', Str ''B'')] (onChange 7 demo))) =
          [(7, ''c1'', c)]) \<and>
   7 \<notin> set (changeListeners (unsubscribe 7 (onChange 7 demo)))"
proof -
  have u: "fst (updateComponent ''c1'' [(''caption'', Str ''B'')] (onChange 7 demo))"
    by (simp add: updateComponent_succeeds demo_figure)
  show ?thesis
    using u
      listeners_notified_after_update [where i = "''c1''" and u = "[(''caption'', Str ''B'')]"
        and s = "onChange 7 demo"]
      listeners_notified_after_update [where s = demo and l = 7]
    by (simp add: demo_figure)
qed

text \<open>
  Claim C6 as stated fails: with listener 7 registered, a successful \<^verbatim>\<open>removeComponent\<close>,
  \<^verbatim>\<open>duplicateComponent\<close> and \<^verbatim>\<open>insertImage\<close> each leave the trace of listener calls
  empty.
\<close>

theorem structural_operations_notify_nobody:
  "changeListeners (onChange 7 demo) = [7] \<and>
   fst (removeComponent ''c1'' (onChange 7 demo)) \<and>
   notified (snd (removeComponent ''c1'' (onChange 7 demo))) = [] \<and>
   fst (duplicateComponent (\<lambda>k. (1000, ''abc'')) ''c1'' (onChange 7 demo)) \<noteq> None \<and>
   notified (snd (duplicateComponent (\<lambda>k. (1000, ''abc'')) ''c1'' (onChange 7 demo))) = [] \<and>
   fst (insertImage (\<lambda>k. (1000, ''abc'')) ''b.png'' ''cat'' (only_layout Center) None
          (onChange 7 demo)) \<noteq> [] \<and>
   notified (snd (insertImage (\<lambda>k. (1000, ''abc'')) ''b.png'' ''cat'' (only_layout Center) None
                   (onChange 7 demo))) = []"
proof -
  have f: "find_node 1 (document (onChange 7 demo)) \<noteq> None"
    using demo_find_figure by (simp add: onChange_def)
  have d: "fst (duplicateComponent (\<lambda>k. (1000, ''abc'')) ''c1'' (onChange 7 demo)) \<noteq> None"
    unfolding duplicateComponent_succeeds using f demo_figure(1,2) by blast
  have n: "fst (insertImage (\<lambda>k. (1000, ''abc'')) ''b.png'' ''cat'' (only_layout Center) None
                 (onChange 7 demo)) \<noteq> []"
    by (rule insertImage_succeeds) (simp add: demo_figure)
  show ?thesis
    using d n
    by (simp add: removeComponent_succeeds removeComponent_notified duplicateComponent_notified
          insertImage_notified demo_figure)
qed

subsection \<open>Identifiers\<close>

lemma digit_mem: "d < 10 \<Longrightarrow> digit d \<in> set ''0123456789''"
  unfolding digit_def by (rule nth_mem) simp

lemma digit_inj: "a < 10 \<Longrightarrow> b < 10 \<Longrightarrow> digit a = digit b \<Longrightarrow> a = b"
proof -
  have d: "distinct ''0123456789''" by simp
  show "a < 10 \<Longrightarrow> b < 10 \<Longrightarrow> digit a = digit b \<Longrightarrow> a = b"
    unfolding digit_def using nth_eq_iff_index_eq [OF d, of a b] by simp
qed

lemma decimal_no_dash: "CHR ''-'' \<notin> set (decimal n)"
proof (induction n rule: decimal.induct)
  case (1 n)
  have nd: "digit d \<noteq> CHR ''-''" if "d < 10" for d
    using digit_mem [OF that] by auto
  show ?case
  proof (cases "n < 10")
    case True
    then have "decimal n = [digit n]" by (subst decimal.simps) simp
    with nd [OF True] show ?thesis by simp
  next
    case False
    then have "decimal n = decimal (n div 10) @ [digit (n mod 10)]"
      by (subst decimal.simps) simp
    moreover have "digit (n mod 10) \<noteq> CHR ''-''" by (rule nd) simp
    ultimately show ?thesis using "1.IH" [OF False] by simp
  qed
qed

lemma decimal_nonempty: "decimal n \<noteq> []"
  by (subst decimal.simps) simp

lemma decimal_inj: "decimal n = decimal m \<Longrightarrow> n = m"
proof (induction n arbitrary: m rule: decimal.induct)
  case (1 n)
  show ?case
  proof (cases "n < 10")
    case True
    then have n: "decimal n = [digit n]" by (subst decimal.simps) simp
    show ?thesis
    proof (cases "m < 10")
      case True
      then have "decimal m = [digit m]" by (subst decimal.simps) simp
      with n "1.prems" \<open>n < 10\<close> True show ?thesis by (auto dest: digit_inj)
    next
      case False
      then have "decimal m = decimal (m div 10) @ [digit (m mod 10)]"
        by (subst decimal.simps) simp
      with n "1.prems" decimal_nonempty [of "m div 10"] show ?thesis by simp
    qed
  next
    case False
    then have n: "decimal n = decimal (n div 10) @ [digit (n mod 10)]"
      by (subst decimal.simps) simp
    show ?thesis
    proof (cases "m < 10")
      case True
      then have "decimal m = [digit m]" by (subst decimal.simps) simp
      with n "1.prems" decimal_nonempty [of "n div 10"] show ?thesis by simp
    next
      case m: False
      then have "decimal m = decimal (m div 10) @ [digit (m mod 10)]"
        by (subst decimal.simps) simp
      with n "1.prems" have e: "decimal (n div 10) = decimal (m div 10)"
        and d: "digit (n mod 10) = digit (m mod 10)" by simp_all
      have "n div 10 = m div 10" using "1.IH" [OF False e] .
      moreover have "n mod 10 = m mod 10" by (rule digit_inj [OF _ _ d]) simp_all
      ultimately show ?thesis by (metis div_mult_mod_eq)
    qed
  qed
qed

lemma split_at_dash:
  "CHR ''-'' \<notin> set xs \<Longrightarrow> CHR ''-'' \<notin> set ys \<Longrightarrow> xs @ CHR ''-'' # x = ys @ CHR ''-'' # y \<Longrightarrow>
   xs = ys \<and> x = y"
proof (induction xs arbitrary: ys)
  case Nil
  then show ?case by (cases ys) auto
next
  case (Cons a xs)
  then show ?case by (cases ys) auto
qed

lemma make_id_inj: "make_id p = make_id q \<Longrightarrow> p = q"
proof -
  assume "make_id p = make_id q"
  then have "decimal (fst p) @ CHR ''-'' # snd p = decimal (fst q) @ CHR ''-'' # snd q"
    by (simp add: make_id_def)
  from split_at_dash [OF decimal_no_dash decimal_no_dash this] show "p = q"
    by (auto dest: decimal_inj intro: prod_eqI)
qed

lemma make_id_nonempty: "make_id p \<noteq> []"
  by (simp add: make_id_def)

subsection \<open>Registrations and their identifiers\<close>

lemma registerElement_outcome:
  "fst (registerElement env n s) = make_id (env (generated s))"
  "generated (snd (registerElement env n s)) = Suc (generated s)"
  by (simp_all add: registerElement_def generateId_def Let_def split: option.splits)

lemma registerImage_outcome:
  "fst (registerImage env n s) = make_id (env (generated s))"
  "generated (snd (registerImage env n s)) = Suc (generated s)"
  by (simp_all add: registerImage_def generateId_def Let_def split: option.splits)

lemma insertImage_outcome:
  assumes "editor s \<noteq> None"
  shows "fst (insertImage env src alt options selection s) = make_id (env (generated s))"
    and "generated (snd (insertImage env src alt options selection s)) = Suc (generated s)"
  using assms
  by (auto simp: insertImage_def generateId_def Let_def split: option.splits)

lemma duplicateComponent_outcome:
  assumes "duplicateComponent env i s = (Some j, s')"
  shows "j = make_id (env (generated s))" and "generated s' = Suc (generated s)"
  using assms
  by (auto simp: duplicateComponent_def generateId_def Let_def split: option.splits)

lemma duplicateComponent_fails:
  "duplicateComponent env i s = (None, s') \<Longrightarrow> s' = s"
  by (auto simp: duplicateComponent_def generateId_def Let_def split: option.splits)

lemma register_Some:
  assumes "register env r s = (Some i, s')"
  shows "i = make_id (env (generated s)) \<and> generated s' = Suc (generated s)"
proof (cases r)
  case (RegisterElement n)
  with assms registerElement_outcome [of env n s] show ?thesis
    by (cases "registerElement env n s") auto
next
  case (RegisterImage n)
  with assms registerImage_outcome [of env n s] show ?thesis
    by (cases "registerImage env n s") auto
next
  case (InsertImage src alt options selection)
  show ?thesis
  proof (cases "editor s")
    case None
    with assms InsertImage show ?thesis by (simp add: insertImage_def)
  next
    case (Some ed)
    then have "editor s \<noteq> None" by simp
    from insertImage_outcome [OF this, of env src alt options selection] assms InsertImage
    show ?thesis
      by (cases "insertImage env src alt options selection s") (auto split: if_splits)
  qed
next
  case (DuplicateComponent j)
  with assms duplicateComponent_outcome [of env j s i s'] show ?thesis by simp
qed

lemma register_None:
  assumes "register env r s = (None, s')"
  shows "s' = s"
proof (cases r)
  case (InsertImage src alt options selection)
  show ?thesis
  proof (cases "editor s")
    case None
    with assms InsertImage show ?thesis by (simp add: insertImage_def)
  next
    case (Some ed)
    then have "editor s \<noteq> None" by simp
    from insertImage_outcome(1) [OF this, of env src alt options selection] assms InsertImage
    show ?thesis
      by (cases "insertImage env src alt options selection s")
         (auto simp: make_id_nonempty split: if_splits)
  qed
next
  case (DuplicateComponent j)
  with assms show ?thesis by (simp add: duplicateComponent_fails)
next
  case (RegisterElement n)
  with assms show ?thesis by (cases "registerElement env n s") simp
next
  case (RegisterImage n)
  with assms show ?thesis by (cases "registerImage env n s") simp
qed

lemma registrations_ids:
  "\<exists>js. fst (registrations env rs s) = map (\<lambda>j. make_id (env j)) js \<and> distinct js \<and>
        (\<forall>j \<in> set js. generated s \<le> j \<and> j < generated (snd (registrations env rs s))) \<and>
        generated s \<le> generated (snd (registrations env rs s))"
proof (induction rs arbitrary: s)
  case Nil
  show ?case by simp
next
  case (Cons r rs)
  obtain x s1 where r: "register env r s = (x, s1)" by (cases "register env r s")
  obtain js where js: "fst (registrations env rs s1) = map (\<lambda>j. make_id (env j)) js"
      "distinct js"
      "\<forall>j \<in> set js. generated s1 \<le> j \<and> j < generated (snd (registrations env rs s1))"
      "generated s1 \<le> generated (snd (registrations env rs s1))"
    using Cons.IH [of s1] by blast
  show ?case
  proof (cases x)
    case None
    with r register_None [of env r s s1] have "s1 = s" by simp
    with js r None show ?thesis by auto
  next
    case (Some i)
    with r register_Some [of env r s i s1]
    have i: "i = make_id (env (generated s))" and g: "generated s1 = Suc (generated s)"
      by simp_all
    have "fst (registrations env (r # rs) s) = map (\<lambda>j. make_id (env j)) (generated s # js)"
      using r Some i js(1) by simp
    moreover have "distinct (generated s # js)"
      using js(2,3) g by auto
    moreover have "\<forall>j \<in> set (generated s # js).
        generated s \<le> j \<and> j < generated (snd (registrations env (r # rs) s))"
      using js(3,4) g r Some by auto
    moreover have "generated s \<le> generated (snd (registrations env (r # rs) s))"
      using js(4) g r Some by simp
    ultimately show ?thesis by blast
  qed
qed

text \<open>
  The identifier format is injective in the pair of time and random suffix: as long as the
  host gives no two calls of \<^verbatim>\<open>generateId\<close> the same pair, the identifiers of a run of
  registrations are pairwise distinct and new to the Registry. Nothing in \<^verbatim>\<open>generateId\<close>
  makes the host do so.
\<close>

lemma generated_ids_distinct:
  assumes "inj env"
    and "\<forall>k \<in> fst ` set (components s). \<exists>j < generated s. k = make_id (env j)"
  shows "distinct (fst (registrations env rs s)) \<and>
         set (fst (registrations env rs s)) \<inter> fst ` set (components s) = {}"
proof -
  obtain js where js: "fst (registrations env rs s) = map (\<lambda>j. make_id (env j)) js"
      "distinct js" "\<forall>j \<in> set js. generated s \<le> j"
    using registrations_ids [of env rs s] by blast
  have inj: "inj (\<lambda>j. make_id (env j))"
    using assms(1) by (auto simp: inj_def dest: make_id_inj)
  have "distinct (fst (registrations env rs s))"
    unfolding js(1) using js(2) inj by (simp add: distinct_map inj_on_def inj_def)
  moreover have "set (fst (registrations env rs s)) \<inter> fst ` set (components s) = {}"
  proof (rule ccontr)
    assume "\<not> ?thesis"
    then obtain k where k: "k \<in> set (fst (registrations env rs s))"
        "k \<in> fst ` set (components s)" by blast
    from k(1) js(1,3) obtain j where j: "k = make_id (env j)" "generated s \<le> j" by auto
    from k(2) assms(2) obtain j' where j': "k = make_id (env j')" "j' < generated s" by blast
    from j(1) j'(1) inj have "j = j'" by (auto simp: inj_def)
    with j(2) j'(2) show False by simp
  qed
  ultimately show ?thesis ..
qed


lemma insertImage_state:
  assumes "editor s = Some ed"
  shows "components (snd (insertImage env src alt options selection s)) =
           AList.update (make_id (env (generated s)))
             \<lparr>cd_id = make_id (env (generated s)), cd_type = Image,
              cd_props =
                [(''src'', Str src), (''alt'', Str alt),
                 (''width'', Str (case ip_width options of None \<Rightarrow> ''100%''
                                  | Some w \<Rightarrow> or_default w ''100%'')),
                 (''layout'', Str (layout_name (case ip_layout options of None \<Rightarrow> Inline
                                                | Some l \<Rightarrow> l)))],
              cd_element = Some (next_node s)\<rparr>
             (components s)"
    and "editor (snd (insertImage env src alt options selection s)) = Some ed"
    and "contentInput (snd (insertImage env src alt options selection s)) = contentInput s"
    and "next_node (snd (insertImage env src alt options selection s)) = next_node s + 4"
  using assms
  by (simp_all add: insertImage_def generateId_def Let_def split: option.splits)

lemma ready_fields:
  "editor ready = Some 0" "contentInput ready = Some 100" "components ready = []"
  "generated ready = 0" "next_node ready = 1"
  "document ready = [Element (new_element 0 ''div'') []]"
  by (simp_all add: ready_def blank_def)

lemma decimal_1000: "decimal 1000 = ''1000''" "decimal 1001 = ''1001''"
  by (simp_all add: decimal.simps digit_def)

text \<open>
  Claim C7. For every \<open>N\<close> and every sequence of \<open>N\<close> registrations the identifiers
  produced should be pairwise distinct, and an identifier should never pass to another
  record; the source documents \<^verbatim>\<open>generateId\<close> as generating a unique component
  identifier. The code departs from that: the identifier is only the time and a random
  suffix, with no counter and no check against the Registry. When the host returns the same
  time and the same suffix to two calls, two insertions get the same identifier, and the
  record of the second replaces the record of the first under it.
\<close>

theorem repeated_draw_repeats_id:
  "fst (registrations (\<lambda>k. (1000, ''abc''))
          [InsertImage ''a.png'' ''cat'' (only_layout Center) None,
           InsertImage ''b.png'' ''dog'' (only_layout Center) None] ready) =
     [''cmp-1000-abc'', ''cmp-1000-abc''] \<and>
   map (\<lambda>kc. (fst kc, map_of (cd_props (snd kc)) ''src''))
     (components (snd (registrations (\<lambda>k. (1000, ''abc''))
          [InsertImage ''a.png'' ''cat'' (only_layout Center) None] ready))) =
     [(''cmp-1000-abc'', Some (Str ''a.png''))] \<and>
   map (\<lambda>kc. (fst kc, map_of (cd_props (snd kc)) ''src''))
     (components (snd (registrations (\<lambda>k. (1000, ''abc''))
          [InsertImage ''a.png'' ''cat'' (only_layout Center) None,
           InsertImage ''b.png'' ''dog'' (only_layout Center) None] ready))) =
     [(''cmp-1000-abc'', Some (Str ''b.png''))]"
proof -
  let ?env = "\<lambda>k::nat. (1000::nat, ''abc'')"
  let ?a = "insertImage ?env ''a.png'' ''cat'' (only_layout Center) None ready"
  let ?b = "insertImage ?env ''b.png'' ''dog'' (only_layout Center) None (snd ?a)"
  have e: "editor ready \<noteq> None" "editor (snd ?a) \<noteq> None"
    by (simp_all add: insertImage_state(2) [OF ready_fields(1)] ready_fields)
  have fa: "fst ?a = ''cmp-1000-abc''"
    by (simp add: insertImage_outcome(1) [OF e(1)] make_id_def decimal_1000)
  have fb: "fst ?b = ''cmp-1000-abc''"
    by (simp add: insertImage_outcome(1) [OF e(2)] make_id_def decimal_1000)
  have ca: "map (\<lambda>kc. (fst kc, map_of (cd_props (snd kc)) ''src'')) (components (snd ?a)) =
      [(''cmp-1000-abc'', Some (Str ''a.png''))]"
    by (simp add: insertImage_state(1) [OF ready_fields(1)] ready_fields make_id_def decimal_1000)
  have cb: "map (\<lambda>kc. (fst kc, map_of (cd_props (snd kc)) ''src'')) (components (snd ?b)) =
      [(''cmp-1000-abc'', Some (Str ''b.png''))]"
    by (simp add: insertImage_state(1) [OF insertImage_state(2) [OF ready_fields(1)]]
          insertImage_state(1) [OF ready_fields(1)] insertImage_outcome(2) [OF e(1)]
          ready_fields make_id_def decimal_1000)
  show ?thesis
    using fa fb ca cb by (simp add: split_beta)
qed

subsection \<open>Inserting an image into an empty editor\<close>

lemma init_blank: "init env 0 100 blank = ready"
  by (simp add: init_def scanExistingComponents_def ready_def blank_def select_ids_def
        find_node_def forest_elements_def querySelectorAll_def descendants_def new_element_def
        scan_selectors_def)

lemma ready_insert_document:
  assumes "selection = None \<or> selection = Some (InElement 0 0)"
  shows "document (snd (insertImage env src alt options selection ready)) =
           [Element (new_element 0 ''div'')
              [image_wrapper 1 (make_id (env 0)) src alt
                 (case ip_width options of None \<Rightarrow> ''100%'' | Some w \<Rightarrow> or_default w ''100%'')
                 (case ip_layout options of None \<Rightarrow> Inline | Some l \<Rightarrow> l),
               empty_paragraph 3]]"
  using assms
  by (auto simp: insertImage_def generateId_def Let_def ready_fields appendChild_def
        insertNode_def node_ids_def forest_elements_def new_element_def after_def
        image_wrapper_def numeral_3_eq_3)


lemma outerHTML_empty_paragraph: "outerHTML (empty_paragraph n) = ''<p><br></p>''"
  by (simp add: empty_paragraph_def new_element_def attributes_def void_element_def)

lemma attrs_of_inserted_image:
  "attrs_of 2 [Element (new_element 0 ''div'')
                 [image_wrapper (Suc 0) i src alt w l, empty_paragraph 3]] =
     Some ((new_element 2 ''img'')
             \<lparr>src_attr := Some src, alt_attr := Some alt,
              classList := [''blog-image'', ''editable''] @
                           (if l \<noteq> Inline then [layout_name l] else []),
              inline_style :=
                style_set ''display'' ''block''
                  (style_set ''cursor'' ''pointer''
                    (style_set ''height'' ''auto''
                      (style_set ''width'' w (style_set ''max-width'' ''100%'' []))))\<rparr>)"
  by (simp add: attrs_of_def find_node_def forest_elements_def image_wrapper_def
        new_element_def empty_paragraph_def)

text \<open>
  Claim C8, as amended. Given an initialised engine with an empty editable root and no
  selection range (or the caret in the empty root),
  \<^verbatim>\<open>insertImage('https://x/img.png', 'cat', {layout: 'center'})\<close> returns a new
  identifier whose record has the properties
  \<^verbatim>\<open>{src: 'https://x/img.png', alt: 'cat', width: '100%', layout: 'center'}\<close>; the editor
  then holds the wrapper followed by an empty paragraph, and the output field holds their
  markup; the inserted image element has the class \<^verbatim>\<open>center\<close> and \<^verbatim>\<open>display: block\<close>,
  and no margin declaration.
\<close>

theorem image_insertion_scenario:
  assumes "selection = None \<or> selection = Some (InElement 0 0)"
  shows "let s = init env 0 100 blank;
             r = insertImage env ''https://x/img.png'' ''cat'' (only_layout Center) selection s;
             wrapper = image_wrapper 1 (fst r) ''https://x/img.png'' ''cat'' ''100%'' Center
         in fst r = make_id (env 0) \<and> fst r \<noteq> [] \<and> getComponent (fst r) s = None \<and>
            map_option cd_props (getComponent (fst r) (snd r)) =
              Some [(''src'', Str ''https://x/img.png''), (''alt'', Str ''cat''),
                    (''width'', Str ''100%''), (''layout'', Str ''center'')] \<and>
            document (snd r) = [Element (new_element 0 ''div'') [wrapper, empty_paragraph 3]] \<and>
            input_value (snd r) 100 = outerHTML wrapper @ ''<p><br></p>'' \<and>
            map_option (\<lambda>a. (classList a, inline_style a)) (attrs_of 2 (document (snd r))) =
              Some ([''blog-image'', ''editable'', ''center''],
                    [(''max-width'', ''100%''), (''width'', ''100%''), (''height'', ''auto''),
                     (''cursor'', ''pointer''), (''display'', ''block'')])"
proof -
  let ?r = "insertImage env ''https://x/img.png'' ''cat'' (only_layout Center) selection ready"
  let ?w = "image_wrapper 1 (make_id (env 0)) ''https://x/img.png'' ''cat'' ''100%'' Center"
  have e: "editor ready \<noteq> None" by (simp add: ready_fields)
  have i: "fst ?r = make_id (env 0)"
    by (simp add: insertImage_outcome(1) [OF e] ready_fields)
  have d: "document (snd ?r) = [Element (new_element 0 ''div'') [?w, empty_paragraph 3]]"
    by (simp add: ready_insert_document [OF assms] only_layout_def)
  have c: "map_option cd_props (getComponent (make_id (env 0)) (snd ?r)) =
      Some [(''src'', Str ''https://x/img.png''), (''alt'', Str ''cat''),
            (''width'', Str ''100%''), (''layout'', Str ''center'')]"
    by (simp add: getComponent_def insertImage_state(1) [OF ready_fields(1)] ready_fields
          only_layout_def)
  have "in_sync 0 100 (snd ?r)"
    by (rule insertImage_sync) (simp_all add: ready_fields)
  then have v: "input_value (snd ?r) 100 = outerHTML ?w @ ''<p><br></p>''"
    by (simp add: in_sync_def editor_markup_def d find_node_def forest_elements_def
          new_element_def innerHTML_def outerHTML_empty_paragraph)
  have a: "map_option (\<lambda>a. (classList a, inline_style a)) (attrs_of 2 (document (snd ?r))) =
      Some ([''blog-image'', ''editable'', ''center''],
            [(''max-width'', ''100%''), (''width'', ''100%''), (''height'', ''auto''),
             (''cursor'', ''pointer''), (''display'', ''block'')])"
    by (simp add: d attrs_of_inserted_image style_set_def)
  have n: "getComponent (make_id (env 0)) ready = None"
    by (simp add: getComponent_def ready_fields)
  show ?thesis
    unfolding Let_def init_blank i using d c v a n by (simp add: make_id_nonempty)
qed

theorem image_insertion_scenario_witness:
  "(let s = init (\<lambda>k. (1000, ''abc'')) 0 100 blank;
        r = insertImage (\<lambda>k. (1000, ''abc'')) ''https://x/img.png'' ''cat'' (only_layout Center) None s
    in fst r = ''cmp-1000-abc'' \<and>
       map_option cd_props (getComponent (fst r) (snd r)) =
         Some [(''src'', Str ''https://x/img.png''), (''alt'', Str ''cat''),
               (''width'', Str ''100%''), (''layout'', Str ''center'')] \<and>
       input_value (snd r) 100 =
         outerHTML (image_wrapper 1 ''cmp-1000-abc'' ''https://x/img.png'' ''cat'' ''100%'' Center) @
         ''<p><br></p>'')"
  using image_insertion_scenario [of None "\<lambda>k. (1000, ''abc'')"]
  by (auto simp: Let_def make_id_def decimal_1000)

text \<open>
  Claim C8 as stated fails: \<^verbatim>\<open>insertImage\<close> gives the image element \<^verbatim>\<open>display: block\<close>
  but neither a left nor a right margin, so no automatic horizontal margins.
\<close>

theorem inserted_image_has_no_auto_margin:
  "map_option (\<lambda>a. (style_get ''display'' (inline_style a),
                     style_get ''margin-left'' (inline_style a),
                     style_get ''margin-right'' (inline_style a)))
     (attrs_of 2 (document (snd (insertImage (\<lambda>k. (1000, ''abc'')) ''https://x/img.png'' ''cat''
                                   (only_layout Center) None
                                   (init (\<lambda>k. (1000, ''abc'')) 0 100 blank))))) =
     Some (''block'', [], [])"
  by (simp add: init_blank ready_insert_document attrs_of_inserted_image style_set_def
        style_get_def only_layout_def)

lemma decimal_1002: "decimal 1002 = ''1002''"
  by (simp add: decimal.simps digit_def)

lemma registrations_two_inserts:
  assumes "editor s = Some ed"
  shows "fst (registrations env [InsertImage a b c d, InsertImage a' b' c' d'] s) =
           [make_id (env (generated s)), make_id (env (Suc (generated s)))]"
proof -
  let ?x = "insertImage env a b c d s"
  have e: "editor s \<noteq> None" using assms by simp
  have e': "editor (snd ?x) \<noteq> None"
    by (simp add: insertImage_state(2) [OF assms])
  have 1: "register env (InsertImage a b c d) s = (Some (make_id (env (generated s))), snd ?x)"
    using insertImage_outcome(1) [OF e, of env a b c d]
    by (cases ?x) (simp add: make_id_nonempty)
  have 2: "register env (InsertImage a' b' c' d') (snd ?x) =
      (Some (make_id (env (Suc (generated s)))), snd (insertImage env a' b' c' d' (snd ?x)))"
    using insertImage_outcome(1) [OF e', of env a' b' c' d'] insertImage_outcome(2) [OF e, of env a b c d]
    by (cases "insertImage env a' b' c' d' (snd ?x)") (simp add: make_id_nonempty)
  show ?thesis
    by (simp add: 1 2 del: register.simps)
qed


text \<open>Three insertions under a clock that advances: three different identifiers.\<close>

lemma generated_ids_distinct_on_ready:
  "inj (\<lambda>k::nat. (1000 + k, ''abc'')) \<and>
   map fst (components (snd (insertImage (\<lambda>k. (1000 + k, ''abc'')) ''a.png'' ''cat''
                              (only_layout Center) None ready))) = [''cmp-1000-abc''] \<and>
   generated (snd (insertImage (\<lambda>k. (1000 + k, ''abc'')) ''a.png'' ''cat''
                     (only_layout Center) None ready)) = 1 \<and>
   fst (registrations (\<lambda>k. (1000 + k, ''abc''))
          [InsertImage ''b.png'' ''dog'' (only_layout Inline) None,
           InsertImage ''c.png'' ''owl'' (only_layout Inline) None]
          (snd (insertImage (\<lambda>k. (1000 + k, ''abc'')) ''a.png'' ''cat''
                  (only_layout Center) None ready))) = [''cmp-1001-abc'', ''cmp-1002-abc''] \<and>
   distinct (fst (registrations (\<lambda>k. (1000 + k, ''abc''))
          [InsertImage ''b.png'' ''dog'' (only_layout Inline) None,
           InsertImage ''c.png'' ''owl'' (only_layout Inline) None]
          (snd (insertImage (\<lambda>k. (1000 + k, ''abc'')) ''a.png'' ''cat''
                  (only_layout Center) None ready))))"
proof -
  define env :: env where "env = (\<lambda>k. (1000 + k, ''abc''))"
  define s1 where "s1 = snd (insertImage env ''a.png'' ''cat'' (only_layout Center) None ready)"
  define rs where "rs = [InsertImage ''b.png'' ''dog'' (only_layout Inline) None,
                         InsertImage ''c.png'' ''owl'' (only_layout Inline) None]"
  have i: "inj env" by (simp add: inj_def env_def)
  have e0: "editor ready \<noteq> None" by (simp add: ready_fields)
  have e1: "editor s1 = Some 0"
    unfolding s1_def by (rule insertImage_state(2) [OF ready_fields(1)])
  have g1: "generated s1 = 1"
    unfolding s1_def by (simp add: insertImage_outcome(2) [OF e0] ready_fields)
  have m0: "make_id (env 0) = ''cmp-1000-abc''"
    and m1: "make_id (env 1) = ''cmp-1001-abc''"
    and m2: "make_id (env 2) = ''cmp-1002-abc''"
    by (simp_all add: env_def make_id_def decimal_1000 decimal_1002)
  have "map fst (components s1) = [make_id (env 0)]"
    unfolding s1_def
    by (simp add: insertImage_state(1) [OF ready_fields(1)] ready_fields)
  then have k: "map fst (components s1) = [''cmp-1000-abc'']"
    by (simp only: m0)
  then have "set (map fst (components s1)) = {''cmp-1000-abc''}"
    by simp
  then have ks: "fst ` set (components s1) = {''cmp-1000-abc''}"
    by simp
  have "fst (registrations env rs s1) = [make_id (env 1), make_id (env 2)]"
    unfolding rs_def by (simp only: registrations_two_inserts [OF e1] g1) (simp add: numeral_2_eq_2)
  then have ids: "fst (registrations env rs s1) = [''cmp-1001-abc'', ''cmp-1002-abc'']"
    by (simp only: m1 m2)
  have h: "\<forall>k \<in> fst ` set (components s1). \<exists>j < generated s1. k = make_id (env j)"
    unfolding ks g1 using m0 by simp
  have d: "distinct (fst (registrations env rs s1))"
    using generated_ids_distinct [OF i h, of rs] by (rule conjunct1)
  note facts = i k g1 ids d
  show ?thesis
    using facts [unfolded env_def s1_def rs_def] by (intro conjI)
qed

subsection \<open>Identities in a forest\<close>

lemma node_ids_Nil [simp]: "node_ids [] = []"
  by (simp add: node_ids_def forest_elements_def)

lemma node_ids_Cons: "node_ids (t # f) = node_ids [t] @ node_ids f"
  by (simp add: node_ids_def forest_elements_def)

lemma node_ids_append: "node_ids (f @ g) = node_ids f @ node_ids g"
  by (simp add: node_ids_def forest_elements_def)

lemma node_ids_Element [simp]: "node_ids [Element a ks] = node_id a # node_ids ks"
  by (simp add: node_ids_def forest_elements_def)

lemma node_ids_TextNode [simp]: "node_ids [TextNode t] = []"
  by (simp add: node_ids_def forest_elements_def)

lemma set_node_ids: "set (node_ids f) = (\<Union>k \<in> set f. set (node_ids [k]))"
  by (auto simp: node_ids_def forest_elements_def)

lemma node_ids_member:
  "k \<in> set f \<Longrightarrow> n \<in> set (node_ids [k]) \<Longrightarrow> n \<in> set (node_ids f)"
  by (subst set_node_ids) blast

lemma update_attrs_absent: "n \<notin> set (node_ids [t]) \<Longrightarrow> update_attrs n g t = t"
proof (induction t)
  case (Element a ks)
  have "map (update_attrs n g) ks = ks"
  proof (rule map_idI)
    fix k assume k: "k \<in> set ks"
    with Element.prems have "n \<notin> set (node_ids [k])"
      by (auto dest: node_ids_member)
    with Element.IH k show "update_attrs n g k = k" by simp
  qed
  with Element.prems show ?case by simp
qed simp

lemma update_children_absent: "n \<notin> set (node_ids [t]) \<Longrightarrow> update_children n g t = t"
proof (induction t)
  case (Element a ks)
  have "map (update_children n g) ks = ks"
  proof (rule map_idI)
    fix k assume k: "k \<in> set ks"
    with Element.prems have "n \<notin> set (node_ids [k])"
      by (auto dest: node_ids_member)
    with Element.IH k show "update_children n g k = k" by simp
  qed
  with Element.prems show ?case by simp
qed simp

lemma has_id_node_ids: "has_id n k \<Longrightarrow> n \<in> set (node_ids [k])"
  by (cases k) simp_all

lemma after_in_absent: "r \<notin> set (node_ids [t]) \<Longrightarrow> after_in r new t = t"
proof (induction t)
  case (Element a ks)
  have "map (\<lambda>k. if has_id r k then [k, new] else [after_in r new k]) ks = map (\<lambda>k. [k]) ks"
  proof (rule map_cong [OF refl])
    fix k assume k: "k \<in> set ks"
    with Element.prems have n: "r \<notin> set (node_ids [k])"
      by (auto dest: node_ids_member)
    then have "\<not> has_id r k" by (auto dest: has_id_node_ids)
    with Element.IH k n show "(if has_id r k then [k, new] else [after_in r new k]) = [k]"
      by simp
  qed
  then have "concat (map (\<lambda>k. if has_id r k then [k, new] else [after_in r new k]) ks) =
             concat (map (\<lambda>k. [k]) ks)"
    by (rule arg_cong)
  also have "\<dots> = ks"
    by (induction ks) simp_all
  finally show ?case by simp
qed simp

lemma after_in_children_absent:
  "r \<notin> set (node_ids ks) \<Longrightarrow> after_in r new (Element a ks) = Element a ks"
proof -
  assume r: "r \<notin> set (node_ids ks)"
  have "map (\<lambda>k. if has_id r k then [k, new] else [after_in r new k]) ks = map (\<lambda>k. [k]) ks"
  proof (rule map_cong [OF refl])
    fix k assume k: "k \<in> set ks"
    with r have n: "r \<notin> set (node_ids [k])"
      by (auto dest: node_ids_member)
    then have "\<not> has_id r k" by (auto dest: has_id_node_ids)
    with n show "(if has_id r k then [k, new] else [after_in r new k]) = [k]"
      by (simp add: after_in_absent)
  qed
  then have "concat (map (\<lambda>k. if has_id r k then [k, new] else [after_in r new k]) ks) =
             concat (map (\<lambda>k. [k]) ks)"
    by (rule arg_cong)
  also have "\<dots> = ks"
    by (induction ks) simp_all
  finally show ?thesis by simp
qed

lemma update_attrs_after_in:
  "m \<notin> set (node_ids [t]) \<Longrightarrow>
   update_attrs m g (after_in r new t) = after_in r (update_attrs m g new) t"
proof (induction t)
  case (Element a ks)
  have "map (update_attrs m g) (concat (map (\<lambda>k. if has_id r k then [k, new] else [after_in r new k]) ks)) =
        concat (map (\<lambda>k. map (update_attrs m g) (if has_id r k then [k, new] else [after_in r new k])) ks)"
    by (simp add: map_concat comp_def)
  also have "\<dots> = concat (map (\<lambda>k. if has_id r k then [k, update_attrs m g new]
                                    else [after_in r (update_attrs m g new) k]) ks)"
  proof (rule arg_cong [where f = concat], rule map_cong [OF refl])
    fix k assume k: "k \<in> set ks"
    with Element.prems have n: "m \<notin> set (node_ids [k])"
      by (auto dest: node_ids_member)
    with Element.IH [OF k] show "map (update_attrs m g) (if has_id r k then [k, new] else [after_in r new k]) =
        (if has_id r k then [k, update_attrs m g new] else [after_in r (update_attrs m g new) k])"
      by (simp add: update_attrs_absent)
  qed
  finally show ?case using Element.prems by simp
qed simp

lemma update_children_after_in:
  "m \<notin> set (node_ids [t]) \<Longrightarrow>
   update_children m g (after_in r new t) = after_in r (update_children m g new) t"
proof (induction t)
  case (Element a ks)
  have "map (update_children m g) (concat (map (\<lambda>k. if has_id r k then [k, new] else [after_in r new k]) ks)) =
        concat (map (\<lambda>k. map (update_children m g) (if has_id r k then [k, new] else [after_in r new k])) ks)"
    by (simp add: map_concat comp_def)
  also have "\<dots> = concat (map (\<lambda>k. if has_id r k then [k, update_children m g new]
                                    else [after_in r (update_children m g new) k]) ks)"
  proof (rule arg_cong [where f = concat], rule map_cong [OF refl])
    fix k assume k: "k \<in> set ks"
    with Element.prems have n: "m \<notin> set (node_ids [k])"
      by (auto dest: node_ids_member)
    with Element.IH [OF k] show "map (update_children m g) (if has_id r k then [k, new] else [after_in r new k]) =
        (if has_id r k then [k, update_children m g new] else [after_in r (update_children m g new) k])"
      by (simp add: update_children_absent)
  qed
  finally show ?case using Element.prems by simp
qed simp

lemma forest_update_attrs_after:
  "m \<notin> set (node_ids f) \<Longrightarrow>
   map (update_attrs m g) (after r new f) = after r (update_attrs m g new) f"
  unfolding after_def
  by (simp, rule ballI, rule update_attrs_after_in) (auto dest: node_ids_member)

lemma forest_update_children_after:
  "m \<notin> set (node_ids f) \<Longrightarrow>
   map (update_children m g) (after r new f) = after r (update_children m g new) f"
  unfolding after_def
  by (simp, rule ballI, rule update_children_after_in) (auto dest: node_ids_member)

subsection \<open>Finding an element after a sibling was inserted\<close>

lemma find_append:
  "find P (xs @ ys) = (case find P xs of None \<Rightarrow> find P ys | Some x \<Rightarrow> Some x)"
  by (induction xs) simp_all

lemma find_concat_cong:
  "(\<And>k. k \<in> set ks \<Longrightarrow> find P (G k) = find P (H k)) \<Longrightarrow>
   find P (concat (map G ks)) = find P (concat (map H ks))"
  by (induction ks) (simp_all add: find_append split: option.splits)

lemma find_concat_first:
  "(\<And>k. k \<in> set ks \<Longrightarrow> find P (G k) = (if C k then Some v else None)) \<Longrightarrow>
   find P (concat (map G ks)) = (if \<exists>k \<in> set ks. C k then Some v else None)"
  by (induction ks) (simp_all add: find_append split: option.splits)

lemma find_id_absent:
  "n \<notin> set (node_ids [t]) \<Longrightarrow> find (\<lambda>e. node_id (fst e) = n) (elements t) = None"
  by (force simp: find_None_iff node_ids_def forest_elements_def)

lemma elements_concat:
  "concat (map elements (concat (map F ks))) = concat (map (\<lambda>k. concat (map elements (F k))) ks)"
  by (induction ks) simp_all

text \<open>An element that is a child somewhere in the tree.\<close>

lemma has_parent_Element:
  "has_parent r [Element a ks] = (\<exists>k \<in> set ks. has_id r k \<or> has_parent r [k])"
  by (auto simp: has_parent_def forest_elements_def)

lemma has_parent_forest: "has_parent r f = (\<exists>t \<in> set f. has_parent r [t])"
  by (auto simp: has_parent_def forest_elements_def)

lemma has_parent_TextNode [simp]: "\<not> has_parent r [TextNode t]"
  by (simp add: has_parent_def forest_elements_def)

lemma find_new_after_in:
  assumes "node_id b = x"
  shows "x \<notin> set (node_ids [t]) \<Longrightarrow>
         find (\<lambda>e. node_id (fst e) = x) (elements (after_in r (Element b bs) t)) =
           (if has_parent r [t] then Some (b, bs) else None)"
proof (induction t)
  case (Element a ks)
  let ?P = "\<lambda>e. node_id (fst e) = x"
  let ?new = "Element b bs"
  let ?F = "\<lambda>k. if has_id r k then [k, ?new] else [after_in r ?new k]"
  have a: "node_id a \<noteq> x" using Element.prems by auto
  have "find ?P (concat (map (\<lambda>k. concat (map elements (?F k))) ks)) =
        (if \<exists>k \<in> set ks. has_id r k \<or> has_parent r [k] then Some (b, bs) else None)"
  proof (rule find_concat_first)
    fix k assume k: "k \<in> set ks"
    with Element.prems have n: "x \<notin> set (node_ids [k])"
      by (auto dest: node_ids_member)
    show "find ?P (concat (map elements (?F k))) =
          (if has_id r k \<or> has_parent r [k] then Some (b, bs) else None)"
    proof (cases "has_id r k")
      case True
      then show ?thesis
        using find_id_absent [OF n] assms by (simp add: find_append)
    next
      case False
      then show ?thesis
        using Element.IH [OF k n] by simp
    qed
  qed
  then show ?case
    using a by (simp add: elements_concat has_parent_Element)
qed simp

lemma find_node_new_after:
  assumes "node_id b = x" and "x \<notin> set (node_ids f)" and "has_parent r f"
  shows "find_node x (after r (Element b bs) f) = Some (b, bs)"
proof -
  have "find (\<lambda>e. node_id (fst e) = x)
          (concat (map (\<lambda>t. elements (after_in r (Element b bs) t)) f)) =
        (if \<exists>t \<in> set f. has_parent r [t] then Some (b, bs) else None)"
  proof (rule find_concat_first)
    fix t assume "t \<in> set f"
    with assms(2) have "x \<notin> set (node_ids [t])" by (auto dest: node_ids_member)
    then show "find (\<lambda>e. node_id (fst e) = x) (elements (after_in r (Element b bs) t)) =
               (if has_parent r [t] then Some (b, bs) else None)"
      by (rule find_new_after_in [OF assms(1)])
  qed
  with assms(3) show ?thesis
    by (simp add: find_node_def forest_elements_def after_def comp_def
          has_parent_forest [of r f])
qed

lemma distinct_node_ids_member:
  "distinct (node_ids f) \<Longrightarrow> k \<in> set f \<Longrightarrow> distinct (node_ids [k])"
proof (induction f)
  case (Cons t f)
  then show ?case
    using node_ids_Cons [of t f] by auto
qed simp

lemma find_old_after_in:
  assumes "el \<notin> set (node_ids [new])"
  shows "distinct (node_ids [t]) \<Longrightarrow>
         find (\<lambda>e. node_id (fst e) = el) (elements (after_in el new t)) =
         find (\<lambda>e. node_id (fst e) = el) (elements t)"
proof (induction t)
  case (Element a ks)
  let ?P = "\<lambda>e. node_id (fst e) = el"
  let ?F = "\<lambda>k. if has_id el k then [k, new] else [after_in el new k]"
  show ?case
  proof (cases "node_id a = el")
    case True
    with Element.prems have "el \<notin> set (node_ids ks)" by simp
    then have "after_in el new (Element a ks) = Element a ks"
      by (rule after_in_children_absent)
    then show ?thesis by (simp only:)
  next
    case False
    have "find ?P (concat (map (\<lambda>k. concat (map elements (?F k))) ks)) =
          find ?P (concat (map elements ks))"
    proof (rule find_concat_cong)
      fix k assume k: "k \<in> set ks"
      from Element.prems have "distinct (node_ids ks)" by simp
      then have d: "distinct (node_ids [k])" using k by (rule distinct_node_ids_member)
      show "find ?P (concat (map elements (?F k))) = find ?P (elements k)"
      proof (cases "has_id el k")
        case True
        then obtain b bs where "k = Element b bs" "node_id b = el" by (cases k) auto
        then show ?thesis using True by simp
      next
        case False
        then show ?thesis using Element.IH [OF k d] by simp
      qed
    qed
    then show ?thesis
      using False by (simp add: elements_concat)
  qed
qed simp

lemma find_node_old_after:
  assumes "el \<notin> set (node_ids [new])" and "distinct (node_ids f)"
  shows "find_node el (after el new f) = find_node el f"
proof -
  have "find (\<lambda>e. node_id (fst e) = el) (concat (map (\<lambda>t. elements (after_in el new t)) f)) =
        find (\<lambda>e. node_id (fst e) = el) (concat (map elements f))"
  proof (rule find_concat_cong)
    fix t assume "t \<in> set f"
    with assms(2) have "distinct (node_ids [t])" by (rule distinct_node_ids_member)
    then show "find (\<lambda>e. node_id (fst e) = el) (elements (after_in el new t)) =
               find (\<lambda>e. node_id (fst e) = el) (elements t)"
      by (rule find_old_after_in [OF assms(1)])
  qed
  then show ?thesis
    by (simp add: find_node_def forest_elements_def after_def comp_def)
qed

text \<open>The new node is the next sibling of the reference node.\<close>

lemma after_in_next_sibling:
  "has_parent r [t] \<Longrightarrow>
   \<exists>p \<in> set (elements (after_in r new t)). \<exists>pre post src.
      snd p = pre @ src # new # post \<and> has_id r src"
proof (induction t)
  case (Element a ks)
  let ?F = "\<lambda>k. if has_id r k then [k, new] else [after_in r new k]"
  let ?ks = "concat (map ?F ks)"
  have el: "elements (after_in r new (Element a ks)) = (a, ?ks) # concat (map elements ?ks)"
    by simp
  from Element.prems obtain k where k: "k \<in> set ks" "has_id r k \<or> has_parent r [k]"
    by (auto simp: has_parent_Element)
  show ?case
  proof (cases "has_id r k")
    case True
    from k(1) obtain ks1 ks2 where "ks = ks1 @ k # ks2" by (auto dest: split_list)
    then have "?ks = concat (map ?F ks1) @ k # new # concat (map ?F ks2)"
      using True by simp
    then have "snd (a, ?ks) = concat (map ?F ks1) @ k # new # concat (map ?F ks2) \<and> has_id r k"
      using True by simp
    moreover have "(a, ?ks) \<in> set (elements (after_in r new (Element a ks)))"
      unfolding el by simp
    ultimately show ?thesis by blast
  next
    case False
    with k have hp: "has_parent r [k]" by simp
    from Element.IH [OF k(1) hp] obtain p pre post src
      where p: "p \<in> set (elements (after_in r new k))" "snd p = pre @ src # new # post"
        "has_id r src" by blast
    have "after_in r new k \<in> set ?ks"
      using k(1) False by auto
    then have "p \<in> set (concat (map elements ?ks))"
      using p(1) by auto
    then have "p \<in> set (elements (after_in r new (Element a ks)))"
      unfolding el by simp
    with p(2,3) show ?thesis by blast
  qed
qed simp

lemma after_next_sibling:
  assumes "has_parent r f"
  shows "\<exists>p \<in> set (forest_elements (after r new f)). \<exists>pre post src.
           snd p = pre @ src # new # post \<and> has_id r src"
proof -
  from assms obtain t where t: "t \<in> set f" "has_parent r [t]"
    by (auto simp: has_parent_forest [of r f])
  from after_in_next_sibling [OF t(2), of new] obtain p pre post src
    where p: "p \<in> set (elements (after_in r new t))" "snd p = pre @ src # new # post"
      "has_id r src" by blast
  from t(1) p(1) have "p \<in> set (forest_elements (after r new f))"
    by (auto simp: forest_elements_def after_def)
  with p(2,3) show ?thesis by blast
qed

subsection \<open>Identities of a clone\<close>

lemma node_ids_concat: "node_ids f = concat (map (\<lambda>t. node_ids [t]) f)"
  by (simp add: node_ids_def forest_elements_def map_concat comp_def)

lemma node_ids_cloneNode: "node_ids [cloneNode k t] = map ((+) k) (node_ids [t])"
proof (induction t)
  case (Element a ks)
  have "node_ids (map (cloneNode k) ks) = concat (map (\<lambda>t. node_ids [cloneNode k t]) ks)"
    by (subst node_ids_concat) (simp add: comp_def)
  also have "\<dots> = concat (map (\<lambda>t. map ((+) k) (node_ids [t])) ks)"
    using Element.IH by (intro arg_cong [where f = concat] map_cong) simp_all
  also have "\<dots> = map ((+) k) (node_ids ks)"
    by (subst (2) node_ids_concat) (simp add: map_concat comp_def)
  finally show ?case by simp
qed simp

lemma node_ids_cloneNode_list: "node_ids (map (cloneNode k) ks) = map ((+) k) (node_ids ks)"
proof -
  have "node_ids (map (cloneNode k) ks) = concat (map (\<lambda>t. node_ids [cloneNode k t]) ks)"
    by (subst node_ids_concat) (simp add: comp_def)
  also have "\<dots> = map ((+) k) (node_ids ks)"
    by (subst (2) node_ids_concat) (simp add: node_ids_cloneNode map_concat comp_def)
  finally show ?thesis .
qed

subsection \<open>Duplicating a component\<close>

lemma find_node_member:
  "find_node n f = Some e \<Longrightarrow> node_id (fst e) = n \<and> e \<in> set (forest_elements f)"
  by (auto simp: find_node_def dest: find_SomeD)

lemma find_node_in_ids: "find_node n f = Some e \<Longrightarrow> n \<in> set (node_ids f)"
  by (force simp: node_ids_def dest: find_node_member)

lemma forest_elements_children_ids:
  "e \<in> set (forest_elements f) \<Longrightarrow> set (node_ids (snd e)) \<subseteq> set (node_ids f)"
  and elements_children_ids:
  "e \<in> set (elements t) \<Longrightarrow> set (node_ids (snd e)) \<subseteq> set (node_ids [t])"
proof -
  show t: "e \<in> set (elements t) \<Longrightarrow> set (node_ids (snd e)) \<subseteq> set (node_ids [t])" for t
  proof (induction t)
    case (Element a ks)
    show ?case
    proof (cases "e = (a, ks)")
      case True
      then show ?thesis by auto
    next
      case False
      with Element.prems obtain k where k: "k \<in> set ks" "e \<in> set (elements k)" by auto
      from Element.IH [OF k] have "set (node_ids (snd e)) \<subseteq> set (node_ids [k])" .
      also have "\<dots> \<subseteq> set (node_ids ks)" using k(1) by (auto dest: node_ids_member)
      finally show ?thesis by auto
    qed
  qed simp
  show "e \<in> set (forest_elements f) \<Longrightarrow> set (node_ids (snd e)) \<subseteq> set (node_ids f)"
  proof -
    assume "e \<in> set (forest_elements f)"
    then obtain t where "t \<in> set f" "e \<in> set (elements t)"
      by (auto simp: forest_elements_def)
    with t [of t] show ?thesis by (auto dest: node_ids_member)
  qed
qed

lemma descendants_ids:
  "e \<in> set (descendants (Element b bs)) \<Longrightarrow> node_id (fst e) \<in> set (node_ids bs)"
  by (force simp: descendants_def node_ids_def forest_elements_def)

lemma query_id_in_children:
  assumes "query_id tag x t = Some n" and "find_node x (document t) = Some (b, bs)"
  shows "n \<in> set (node_ids bs)"
proof -
  from assms obtain q where q: "querySelector (has_tag tag) (b, bs) = Some q" "n = node_id (fst q)"
    by (auto simp: query_id_def)
  then have "q \<in> set (descendants (Element b bs))"
    by (auto simp: querySelector_def dest: find_SomeD)
  with q(2) show ?thesis by (auto dest: descendants_ids)
qed

lemma duplicateComponent_unfold:
  assumes "map_of (components s) i = Some c" and "cd_element c = Some el"
    and "find_node el (document s) = Some e" and "has_parent el (document s)"
  shows "duplicateComponent env i s =
     (Some (make_id (env (generated s))),
      syncContent
        (set_component (make_id (env (generated s)))
           \<lparr>cd_id = make_id (env (generated s)), cd_type = cd_type c, cd_props = cd_props c,
            cd_element = Some (next_node s + el)\<rparr>
           (write_document
              (after el
                 (Element ((fst e)\<lparr>node_id := next_node s + el,
                                   componentId := Some (make_id (env (generated s)))\<rparr>)
                    (map (cloneNode (next_node s)) (snd e))))
              (s\<lparr>generated := Suc (generated s), next_node := next_node s + next_node s\<rparr>))))"
  using assms by (simp add: duplicateComponent_def generateId_def Let_def write_document_def)

lemma node_ids_update_attrs:
  assumes "\<And>a. node_id (g a) = node_id a"
  shows "node_ids (map (update_attrs n g) f) = node_ids f"
  by (simp add: node_ids_def forest_elements_update_attrs comp_def assms)

lemma node_ids_update_children:
  assumes "\<And>ks. node_ids (g ks) = []"
  shows "set (node_ids [update_children n g t]) \<subseteq> set (node_ids [t])"
proof (induction t)
  case (Element a ks)
  have "set (node_ids (map (update_children n g) ks)) \<subseteq> set (node_ids ks)"
  proof
    fix x assume "x \<in> set (node_ids (map (update_children n g) ks))"
    then obtain k where k: "k \<in> set ks" "x \<in> set (node_ids [update_children n g k])"
      by (subst (asm) set_node_ids) auto
    with Element.IH [OF k(1)] have "x \<in> set (node_ids [k])" by auto
    with k(1) show "x \<in> set (node_ids ks)" by (auto dest: node_ids_member)
  qed
  then show ?case by (auto simp: assms)
qed simp

lemma write_attrs_inserted_after:
  assumes "inserted_after el f S t" and "n \<notin> set (node_ids f)"
    and "\<And>a. node_id (g a) = node_id a"
  shows "inserted_after el f S (write_document (map (update_attrs n g)) t)"
proof -
  from assms(1) obtain new where new: "document t = after el new f" "set (node_ids [new]) \<subseteq> S"
    by (auto simp: inserted_after_def)
  have "node_ids [update_attrs n g new] = node_ids [new]"
    using node_ids_update_attrs [of g n "[new]"] assms(3) by simp
  with new show ?thesis
    unfolding inserted_after_def
    by (intro exI [of _ "update_attrs n g new"])
       (simp add: forest_update_attrs_after [OF assms(2)])
qed

lemma write_children_inserted_after:
  assumes "inserted_after el f S t" and "n \<notin> set (node_ids f)"
    and "\<And>ks. node_ids (g ks) = []"
  shows "inserted_after el f S (write_document (map (update_children n g)) t)"
proof -
  from assms(1) obtain new where new: "document t = after el new f" "set (node_ids [new]) \<subseteq> S"
    by (auto simp: inserted_after_def)
  have "set (node_ids [update_children n g new]) \<subseteq> set (node_ids [new])"
    by (rule node_ids_update_children [OF assms(3)])
  with new show ?thesis
    unfolding inserted_after_def
    by (intro exI [of _ "update_children n g new"])
       (auto simp: forest_update_children_after [OF assms(2)])
qed

lemma set_src_inserted_after:
  "inserted_after el f S t \<Longrightarrow> n \<notin> set (node_ids f) \<Longrightarrow>
   inserted_after el f S (write_document (set_src n v) t)"
  unfolding set_src_def [abs_def] by (rule write_attrs_inserted_after) simp_all

lemma set_alt_inserted_after:
  "inserted_after el f S t \<Longrightarrow> n \<notin> set (node_ids f) \<Longrightarrow>
   inserted_after el f S (write_document (set_alt n v) t)"
  unfolding set_alt_def [abs_def] by (rule write_attrs_inserted_after) simp_all

lemma set_textContent_inserted_after:
  "inserted_after el f S t \<Longrightarrow> n \<notin> set (node_ids f) \<Longrightarrow>
   inserted_after el f S (write_document (set_textContent n v) t)"
  unfolding set_textContent_def [abs_def] by (rule write_children_inserted_after) simp_all

lemma conditional_write_inserted_after:
  assumes "inserted_after el f S t"
    and "\<And>n. target = Some n \<Longrightarrow> inserted_after el f S (write_document (w n) t)"
  shows "inserted_after el f S
           (case target of Some n \<Rightarrow> if cond then write_document (w n) t else t | None \<Rightarrow> t)"
  using assms by (cases target) simp_all

lemma applyUpdatesToDOM_inserted_after:
  assumes inv: "inserted_after el f S t" and x: "cd_element c = Some x"
    and targets: "\<And>tag n. query_id tag x t = Some n \<Longrightarrow> n \<notin> set (node_ids f)"
  shows "inserted_after el f S (applyUpdatesToDOM c t)"
proof (cases "cd_type c")
  case Figure
  let ?img = "query_id ''img'' x t" and ?cap = "query_id ''figcaption'' x t"
  let ?s1 = "case ?img of Some n \<Rightarrow> if truthy (prop_of ''src'' c)
                then write_document (set_src n (to_string (prop_of ''src'' c))) t else t
             | None \<Rightarrow> t"
  let ?s2 = "case ?img of Some n \<Rightarrow> if truthy (prop_of ''alt'' c)
                then write_document (set_alt n (to_string (prop_of ''alt'' c))) ?s1 else ?s1
             | None \<Rightarrow> ?s1"
  have 1: "inserted_after el f S ?s1"
    by (rule conditional_write_inserted_after [OF inv])
       (rule set_src_inserted_after [OF inv], rule targets)
  have 2: "inserted_after el f S ?s2"
    by (rule conditional_write_inserted_after [OF 1])
       (rule set_alt_inserted_after [OF 1], rule targets)
  have "inserted_after el f S
          (case ?cap of Some n \<Rightarrow> if prop_of ''caption'' c \<noteq> Undefined
              then write_document (set_textContent n (to_string (prop_of ''caption'' c))) ?s2
              else ?s2
           | None \<Rightarrow> ?s2)"
    by (rule conditional_write_inserted_after [OF 2])
       (rule set_textContent_inserted_after [OF 2], rule targets)
  then show ?thesis
    by (simp add: applyUpdatesToDOM_def x Figure Let_def)
next
  case Quote
  let ?img = "query_id ''img'' x t" and ?bq = "query_id ''blockquote'' x t"
    and ?cite = "query_id ''cite'' x t"
  let ?s1 = "case ?img of Some n \<Rightarrow> if truthy (prop_of ''avatarSrc'' c)
                then write_document (set_src n (to_string (prop_of ''avatarSrc'' c))) t else t
             | None \<Rightarrow> t"
  let ?s2 = "case ?bq of Some n \<Rightarrow> if truthy (prop_of ''quote'' c)
                then write_document (set_textContent n (to_string (prop_of ''quote'' c))) ?s1
                else ?s1
             | None \<Rightarrow> ?s1"
  have 1: "inserted_after el f S ?s1"
    by (rule conditional_write_inserted_after [OF inv])
       (rule set_src_inserted_after [OF inv], rule targets)
  have 2: "inserted_after el f S ?s2"
    by (rule conditional_write_inserted_after [OF 1])
       (rule set_textContent_inserted_after [OF 1], rule targets)
  have "inserted_after el f S
          (case ?cite of Some n \<Rightarrow> if truthy (prop_of ''author'' c)
              then write_document (set_textContent n (to_string (prop_of ''author'' c))) ?s2
              else ?s2
           | None \<Rightarrow> ?s2)"
    by (rule conditional_write_inserted_after [OF 2])
       (rule set_textContent_inserted_after [OF 2], rule targets)
  then show ?thesis
    by (simp add: applyUpdatesToDOM_def x Quote Let_def)
qed (use inv x in \<open>simp_all add: applyUpdatesToDOM_def\<close>)

lemma updateComponent_unfold:
  assumes "map_of (components s) i = Some c" and "cd_element c = Some el"
  shows "updateComponent i u s =
           (True,
            notifyListeners i (c\<lparr>cd_props := spread (cd_props c) u\<rparr>)
              (syncContent
                (applyUpdatesToDOM (c\<lparr>cd_props := spread (cd_props c) u\<rparr>)
                  (set_component i (c\<lparr>cd_props := spread (cd_props c) u\<rparr>) s))))"
  using assms by (simp add: updateComponent_def Let_def)

lemma query_id_set_component [simp]:
  "query_id tag x (set_component i c s) = query_id tag x s"
  by (simp add: query_id_def)

lemma inserted_after_set_component [simp]:
  "inserted_after el f S (set_component i c s) = inserted_after el f S s"
  by (simp add: inserted_after_def)

text \<open>
  Duplicating a component whose element has a parent, when the identifier drawn is not yet
  in the Registry (identities in the document are unique and below the next free one): the
  call returns the new identifier; the new record has the type and the property bag of the
  source and the clone as element, and the source record stays; the clone is the next
  sibling of the source element; and after any \<^verbatim>\<open>updateComponent\<close> on the new identifier
  the source record and the source element, with all below it, are what they were.
\<close>

lemma duplicate_then_update:
  assumes i: "map_of (components s) i = Some c" and el: "cd_element c = Some el"
    and e: "find_node el (document s) = Some e" and hp: "has_parent el (document s)"
    and d: "distinct (node_ids (document s))"
    and lt: "\<forall>n \<in> set (node_ids (document s)). n < next_node s"
    and fresh: "map_of (components s) (make_id (env (generated s))) = None"
  shows "let j = make_id (env (generated s));
             k = next_node s;
             clone = Element ((fst e)\<lparr>node_id := k + el, componentId := Some j\<rparr>)
                       (map (cloneNode k) (snd e));
             s1 = snd (duplicateComponent env i s);
             s2 = snd (updateComponent j u s1)
         in fst (duplicateComponent env i s) = Some j \<and>
            getComponent j s1 =
              Some \<lparr>cd_id = j, cd_type = cd_type c, cd_props = cd_props c,
                    cd_element = Some (k + el)\<rparr> \<and>
            getComponent i s1 = Some c \<and>
            document s1 = after el clone (document s) \<and>
            (\<exists>p \<in> set (forest_elements (document s1)). \<exists>pre post src.
                snd p = pre @ src # clone # post \<and> has_id el src) \<and>
            find_node el (document s1) = Some e \<and>
            fst (updateComponent j u s1) \<and>
            map_option cd_props (getComponent j s2) = Some (spread (cd_props c) u) \<and>
            getComponent i s2 = Some c \<and>
            find_node el (document s2) = Some e"
proof -
  define j where "j = make_id (env (generated s))"
  define k where "k = next_node s"
  define b where "b = (fst e)\<lparr>node_id := k + el, componentId := Some j\<rparr>"
  define clone where "clone = Element b (map (cloneNode k) (snd e))"
  define data where "data = \<lparr>cd_id = j, cd_type = cd_type c, cd_props = cd_props c,
                             cd_element = Some (k + el)\<rparr>"
  define s1 where "s1 = snd (duplicateComponent env i s)"
  define data' where "data' = data\<lparr>cd_props := spread (cd_props data) u\<rparr>"
  define s2 where "s2 = snd (updateComponent j u s1)"
  let ?f = "document s"
  have ji: "j \<noteq> i" using i fresh by (auto simp: j_def)
  have dup: "duplicateComponent env i s =
      (Some j, syncContent (set_component j data (write_document (after el clone)
         (s\<lparr>generated := Suc (generated s), next_node := k + k\<rparr>))))"
    unfolding j_def k_def data_def clone_def b_def
    by (rule duplicateComponent_unfold [OF i el e hp])
  have r1: "fst (duplicateComponent env i s) = Some j"
    by (simp add: dup)
  have doc1: "document s1 = after el clone ?f"
    and comp1: "components s1 = AList.update j data (components s)"
    by (simp_all add: s1_def dup)
  have gj1: "getComponent j s1 = Some data"
    and gi1: "getComponent i s1 = Some c"
    using ji i by (simp_all add: getComponent_def comp1 AList.update_conv')
  have el_lt: "el < k"
    using find_node_in_ids [OF e] lt by (simp add: k_def)
  have kids: "set (node_ids (snd e)) \<subseteq> set (node_ids ?f)"
    using find_node_member [OF e] by (auto dest: forest_elements_children_ids)
  have clone_ids: "\<forall>n \<in> set (node_ids [clone]). k \<le> n"
    by (auto simp: clone_def b_def node_ids_cloneNode_list)
  have old_ids: "\<forall>n \<in> set (node_ids ?f). n < k"
    using lt by (simp add: k_def)
  have el_clone: "el \<notin> set (node_ids [clone])"
    using clone_ids el_lt by auto
  have sib: "\<exists>p \<in> set (forest_elements (document s1)). \<exists>pre post src.
      snd p = pre @ src # clone # post \<and> has_id el src"
    unfolding doc1 by (rule after_next_sibling [OF hp])
  have f1: "find_node el (document s1) = Some e"
    unfolding doc1 using find_node_old_after [OF el_clone d] e by simp
  have upd: "updateComponent j u s1 =
      (True, notifyListeners j data' (syncContent (applyUpdatesToDOM data' (set_component j data' s1))))"
    unfolding data'_def
    by (rule updateComponent_unfold [where el = "k + el"])
       (use gj1 in \<open>simp_all add: getComponent_def data_def\<close>)
  have r2: "fst (updateComponent j u s1)"
    by (simp add: upd)
  have comp2: "components s2 = AList.update j data' (components s1)"
    and doc2: "document s2 = document (applyUpdatesToDOM data' (set_component j data' s1))"
    by (simp_all add: s2_def upd)
  have gj2: "map_option cd_props (getComponent j s2) = Some (spread (cd_props c) u)"
    by (simp add: getComponent_def comp2 AList.update_conv' data'_def data_def)
  have gi2: "getComponent i s2 = Some c"
    using ji gi1 by (simp add: getComponent_def comp2 AList.update_conv')
  have xk: "k + el \<notin> set (node_ids ?f)"
    using old_ids by auto
  have fc: "find_node (k + el) (document s1) = Some (b, map (cloneNode k) (snd e))"
    unfolding doc1 clone_def
    by (rule find_node_new_after [OF _ xk hp]) (simp add: b_def)
  have targets: "n \<notin> set (node_ids ?f)" if "query_id tag (k + el) s1 = Some n" for tag n
  proof -
    from query_id_in_children [OF that fc] have "n \<in> set (node_ids [clone])"
      by (simp add: clone_def)
    with clone_ids old_ids show ?thesis by force
  qed
  have inv1: "inserted_after el ?f (set (node_ids [clone])) s1"
    unfolding inserted_after_def using doc1 by blast
  have "inserted_after el ?f (set (node_ids [clone]))
          (applyUpdatesToDOM data' (set_component j data' s1))"
    by (rule applyUpdatesToDOM_inserted_after [where x = "k + el"])
       (use inv1 targets in \<open>simp_all add: data'_def data_def\<close>)
  then obtain new where new: "document s2 = after el new ?f"
      "set (node_ids [new]) \<subseteq> set (node_ids [clone])"
    unfolding doc2 [symmetric] inserted_after_def by blast
  have "el \<notin> set (node_ids [new])"
    using new(2) el_clone by auto
  then have f2: "find_node el (document s2) = Some e"
    unfolding new(1) using find_node_old_after [OF _ d] e by simp
  show ?thesis
    unfolding Let_def
    using r1 gj1 gi1 doc1 sib f1 r2 gj2 gi2 f2
    unfolding j_def k_def b_def clone_def data_def s1_def s2_def
    by (intro conjI)
qed


lemma one_image_fields:
  "components (snd (insertImage (\<lambda>k. (1000, ''abc'')) ''a.png'' ''cat'' (only_layout Center) None ready)) =
     [(''cmp-1000-abc'',
       \<lparr>cd_id = ''cmp-1000-abc'', cd_type = Image,
        cd_props = [(''src'', Str ''a.png''), (''alt'', Str ''cat''), (''width'', Str ''100%''),
                    (''layout'', Str ''center'')],
        cd_element = Some 1\<rparr>)]"
  "generated (snd (insertImage (\<lambda>k. (1000, ''abc'')) ''a.png'' ''cat'' (only_layout Center) None ready)) = 1"
  "next_node (snd (insertImage (\<lambda>k. (1000, ''abc'')) ''a.png'' ''cat'' (only_layout Center) None ready)) = 5"
  "document (snd (insertImage (\<lambda>k. (1000, ''abc'')) ''a.png'' ''cat'' (only_layout Center) None ready)) =
     [Element (new_element 0 ''div'')
        [image_wrapper 1 ''cmp-1000-abc'' ''a.png'' ''cat'' ''100%'' Center, empty_paragraph 3]]"
proof -
  have e: "editor ready \<noteq> None" by (simp add: ready_fields)
  show "components (snd (insertImage (\<lambda>k. (1000, ''abc'')) ''a.png'' ''cat'' (only_layout Center) None ready)) =
     [(''cmp-1000-abc'',
       \<lparr>cd_id = ''cmp-1000-abc'', cd_type = Image,
        cd_props = [(''src'', Str ''a.png''), (''alt'', Str ''cat''), (''width'', Str ''100%''),
                    (''layout'', Str ''center'')],
        cd_element = Some 1\<rparr>)]"
    by (simp add: insertImage_state(1) [OF ready_fields(1)] ready_fields make_id_def
          decimal_1000 only_layout_def)
  show "generated (snd (insertImage (\<lambda>k. (1000, ''abc'')) ''a.png'' ''cat'' (only_layout Center) None ready)) = 1"
    by (simp add: insertImage_outcome(2) [OF e] ready_fields)
  show "next_node (snd (insertImage (\<lambda>k. (1000, ''abc'')) ''a.png'' ''cat'' (only_layout Center) None ready)) = 5"
    by (simp add: insertImage_state(4) [OF ready_fields(1)] ready_fields)
  show "document (snd (insertImage (\<lambda>k. (1000, ''abc'')) ''a.png'' ''cat'' (only_layout Center) None ready)) =
     [Element (new_element 0 ''div'')
        [image_wrapper 1 ''cmp-1000-abc'' ''a.png'' ''cat'' ''100%'' Center, empty_paragraph 3]]"
    by (simp add: ready_insert_document make_id_def decimal_1000 only_layout_def)
qed

text \<open>
  Claim C9. For every tracked component \<^verbatim>\<open>duplicateComponent(id)\<close> should assign a fresh
  identifier, insert a deep clone right after the source node and copy the property bag, so
  that a later \<^verbatim>\<open>updateComponent\<close> on the duplicate leaves the original record and node
  unchanged. The code departs from that where \<^verbatim>\<open>generateId\<close> repeats an identifier (the
  defect of claim C7): with the host returning the time 1000 and the suffix \<^verbatim>\<open>abc\<close>
  again, duplicating the component \<^verbatim>\<open>cmp-1000-abc\<close> returns \<^verbatim>\<open>cmp-1000-abc\<close> itself, the
  record of the clone (element 6) replaces the record of the source (element 1) under it,
  and an update through the returned identifier changes the only record left.
\<close>

theorem duplicate_under_repeated_draw:
  "let s = snd (insertImage (\<lambda>k. (1000, ''abc'')) ''a.png'' ''cat'' (only_layout Center) None ready);
       r = duplicateComponent (\<lambda>k. (1000, ''abc'')) ''cmp-1000-abc'' s
   in map (\<lambda>kc. (fst kc, cd_element (snd kc))) (components s) = [(''cmp-1000-abc'', Some 1)] \<and>
      fst r = Some ''cmp-1000-abc'' \<and>
      map (\<lambda>kc. (fst kc, cd_element (snd kc))) (components (snd r)) =
        [(''cmp-1000-abc'', Some 6)] \<and>
      map_option (\<lambda>c. (cd_element c, map_of (cd_props c) ''alt''))
        (getComponent ''cmp-1000-abc''
           (snd (updateComponent ''cmp-1000-abc'' [(''alt'', Str ''dog'')] (snd r)))) =
        Some (Some 6, Some (Str ''dog''))"
proof -
  define s where
    "s = snd (insertImage (\<lambda>k. (1000, ''abc'')) ''a.png'' ''cat'' (only_layout Center) None ready)"
  define c where
    "c = \<lparr>cd_id = ''cmp-1000-abc'', cd_type = Image,
          cd_props = [(''src'', Str ''a.png''), (''alt'', Str ''cat''), (''width'', Str ''100%''),
                      (''layout'', Str ''center'')],
          cd_element = Some 1\<rparr>"
  define r where "r = duplicateComponent (\<lambda>k. (1000, ''abc'')) ''cmp-1000-abc'' s"
  have cs: "components s = [(''cmp-1000-abc'', c)]" and g: "generated s = 1"
    and n: "next_node s = 5"
    and d: "document s = [Element (new_element 0 ''div'')
        [image_wrapper 1 ''cmp-1000-abc'' ''a.png'' ''cat'' ''100%'' Center, empty_paragraph 3]]"
    unfolding s_def c_def by (rule one_image_fields)+
  have i: "map_of (components s) ''cmp-1000-abc'' = Some c" by (simp add: cs)
  have el: "cd_element c = Some 1" by (simp add: c_def)
  obtain e where e: "find_node 1 (document s) = Some e"
    by (simp add: d find_node_def forest_elements_def image_wrapper_def new_element_def)
  have hp: "has_parent 1 (document s)"
    by (simp add: d has_parent_def forest_elements_def image_wrapper_def new_element_def)
  have m: "make_id (1000, ''abc'') = ''cmp-1000-abc''"
    by (simp add: make_id_def decimal_1000)
  note u = duplicateComponent_unfold [OF i el e hp, of "\<lambda>k. (1000, ''abc'')", folded r_def]
  have r1: "fst r = Some ''cmp-1000-abc''"
    by (simp add: u m)
  have c1: "map (\<lambda>kc. (fst kc, cd_element (snd kc))) (components (snd r)) =
        [(''cmp-1000-abc'', Some 6)]"
    by (simp add: u m cs n)
  have "map_of (components (snd r)) ''cmp-1000-abc'' =
        Some \<lparr>cd_id = ''cmp-1000-abc'', cd_type = cd_type c, cd_props = cd_props c,
              cd_element = Some 6\<rparr>"
    by (simp add: u m cs n)
  from updateComponent_unfold [OF this, of 6 "[(''alt'', Str ''dog'')]"]
  have c2: "map_option (\<lambda>c. (cd_element c, map_of (cd_props c) ''alt''))
        (getComponent ''cmp-1000-abc''
           (snd (updateComponent ''cmp-1000-abc'' [(''alt'', Str ''dog'')] (snd r)))) =
        Some (Some 6, Some (Str ''dog''))"
    by (simp add: getComponent_def AList.update_conv' c_def spread_def)
  have c0: "map (\<lambda>kc. (fst kc, cd_element (snd kc))) (components s) = [(''cmp-1000-abc'', Some 1)]"
    by (simp add: cs c_def)
  show ?thesis
    unfolding Let_def using c0 r1 c1 c2 unfolding r_def s_def by (intro conjI)
qed

subsection \<open>The observer and a moved component\<close>

lemma demo_markers:
  "markers demo = [(1, Some ''c1''), (2, None), (3, None), (4, Some ''c2'')]"
  "map fst (components demo) = [''c1'', ''c2'']"
  "getComponentByElement 1 demo = Some figure_data"
  by (simp_all add: markers_def editor_descendants_def demo_def find_node_def
        forest_elements_def descendants_def figure_node_def image_node_def new_element_def
        getComponentByElement_def)

lemma moved_find_figure:
  "find_node 1 (document moved) =
     Some ((new_element 1 ''figure'')\<lparr>componentId := Some ''c1''\<rparr>,
           [Element ((new_element 2 ''img'')\<lparr>src_attr := Some ''a.png''\<rparr>) [],
            Element (new_element 3 ''figcaption'') [TextNode ''A'']])"
  by (simp add: moved_def find_node_def forest_elements_def figure_node_def image_node_def
        new_element_def)

lemma move_batch_result:
  "mutation_callback env move_batch moved = moved\<lparr>components := [(''c2'', image_data)]\<rparr>"
proof -
  have r: "handle_removed (HTMLElement 1) moved = moved\<lparr>components := [(''c2'', image_data)]\<rparr>"
    by (simp add: moved_find_figure [unfolded One_nat_def] new_element_def)
       (simp add: moved_def demo_def)
  have f: "find_node 1 (document (moved\<lparr>components := [(''c2'', image_data)]\<rparr>)) =
      find_node 1 (document moved)"
    by simp
  have a: "handle_added env (HTMLElement 1) (moved\<lparr>components := [(''c2'', image_data)]\<rparr>) =
      moved\<lparr>components := [(''c2'', image_data)]\<rparr>"
    by (simp add: register_if_def f moved_find_figure [unfolded One_nat_def]
          no_componentId_def new_element_def has_tag_def)
  show ?thesis
    by (simp add: mutation_callback_def handle_mutation_def move_batch_def
          r [unfolded One_nat_def] a [unfolded One_nat_def]
          del: handle_removed.simps handle_added.simps)
qed

text \<open>
  Claim C2. After any sequence of register, remove and observer-driven operations, every
  node in the editable root that carries a marker should have exactly one Registry entry,
  and every entry whose node is attached should belong to a node with the matching marker.
  The observer works towards that (it deletes the record of a removed marked node and
  registers an added unmarked component) and misses the node that is removed and comes back:
  the record is deleted although the node is attached again, and the added node is skipped
  because it carries a marker. In the sample manager markers and records agree; after the
  host moves the tracked figure behind the image and the observer has handled the batch, the
  figure is in the editable root with the marker \<^verbatim>\<open>c1\<close> and the Registry has no entry
  for it.
\<close>

theorem moved_component_loses_its_record:
  "markers demo = [(1, Some ''c1''), (2, None), (3, None), (4, Some ''c2'')] \<and>
   map fst (components demo) = [''c1'', ''c2''] \<and>
   getComponentByElement 1 demo = Some figure_data \<and>
   markers (mutation_callback (\<lambda>k. (1000, ''abc'')) move_batch moved) =
     [(4, Some ''c2''), (1, Some ''c1''), (2, None), (3, None)] \<and>
   map fst (components (mutation_callback (\<lambda>k. (1000, ''abc'')) move_batch moved)) = [''c2''] \<and>
   getComponent ''c1'' (mutation_callback (\<lambda>k. (1000, ''abc'')) move_batch moved) = None \<and>
   getComponentByElement 1 (mutation_callback (\<lambda>k. (1000, ''abc'')) move_batch moved) = None"
proof -
  have m: "markers (moved\<lparr>components := [(''c2'', image_data)]\<rparr>) =
      [(4, Some ''c2''), (1, Some ''c1''), (2, None), (3, None)]"
    by (simp add: markers_def editor_descendants_def moved_def demo_def find_node_def
          forest_elements_def descendants_def figure_node_def image_node_def new_element_def)
  have g: "getComponentByElement 1 (moved\<lparr>components := [(''c2'', image_data)]\<rparr>) = None"
    by (simp add: getComponentByElement_def moved_find_figure [unfolded One_nat_def]
          new_element_def image_data_def)
  show ?thesis
    by (simp add: demo_markers [unfolded One_nat_def] move_batch_result m
          g [unfolded One_nat_def] getComponent_def)
qed

end
